theory Spec2Isabelle
  imports Main
begin

section \<open>JavaScript values\<close>

text \<open>
  The server (\<^verbatim>\<open>counter-wip/src/server.ts\<close>) reads JSON request bodies, keeps job objects in
  a \<^verbatim>\<open>Map\<close> and answers with JSON. A parsed JSON document is a \<open>json\<close>; a JavaScript
  value that may also be \<^verbatim>\<open>undefined\<close> is a \<open>jsval\<close>. JSON numbers are never inspected by
  the code, so their payload is kept as an integer.
\<close>

datatype json =
    JNull
  | JBool bool
  | JNum int
  | JStr string
  | JArr "json list"
  | JObj "(string \<times> json) list"

datatype jsval = Undefined | Val json

text \<open>
  A thrown value: either an \<^verbatim>\<open>Error\<close> instance with its \<^verbatim>\<open>message\<close>, or anything else
  (the \<^verbatim>\<open>catch\<close> block of \<^verbatim>\<open>/start_job\<close> tells the two apart with \<^verbatim>\<open>instanceof\<close>).
\<close>

datatype thrown = ErrorObj string | NonError

definition type_error :: "string \<Rightarrow> string \<Rightarrow> thrown" where
  "type_error what k =
     ErrorObj (''Cannot read properties of '' @ what @ '' (reading '' @ [CHR 0x27] @ k @ [CHR 0x27] @ '')'')"

text \<open>
  Property read \<^verbatim>\<open>v.k\<close>. Reading a property of \<^verbatim>\<open>null\<close> or \<^verbatim>\<open>undefined\<close> throws a
  TypeError. An object made by the JSON parser holds the last value given for a repeated key.
  The names the server reads (\<^verbatim>\<open>input_data\<close>, \<^verbatim>\<open>key\<close>, \<^verbatim>\<open>value\<close>, \<^verbatim>\<open>data\<close>,
  \<^verbatim>\<open>status\<close>, \<^verbatim>\<open>txId\<close>) are not properties of arrays, strings, numbers or booleans, so
  those reads give \<^verbatim>\<open>undefined\<close>.
\<close>

fun get_prop :: "jsval \<Rightarrow> string \<Rightarrow> thrown + jsval" where
  "get_prop Undefined k = Inl (type_error ''undefined'' k)"
| "get_prop (Val JNull) k = Inl (type_error ''null'' k)"
| "get_prop (Val (JObj kvs)) k =
     Inr (case map_of (rev kvs) k of None \<Rightarrow> Undefined | Some v \<Rightarrow> Val v)"
| "get_prop (Val _) k = Inr Undefined"

text \<open>Optional chaining \<^verbatim>\<open>v?.k\<close>: \<^verbatim>\<open>undefined\<close> where \<^verbatim>\<open>v.k\<close> would throw.\<close>

definition opt_prop :: "jsval \<Rightarrow> string \<Rightarrow> jsval" where
  "opt_prop v k = (case get_prop v k of Inl _ \<Rightarrow> Undefined | Inr x \<Rightarrow> x)"

text \<open>
  \<^verbatim>\<open>Number.prototype.toString\<close> on an integer-valued number below \<open>10^21\<close> in magnitude:
  the decimal digits, with a minus sign for a negative number.
\<close>

definition digit_char :: "nat \<Rightarrow> char" where
  "digit_char d = ''0123456789'' ! d"

fun digits10 :: "nat \<Rightarrow> string" where
  "digits10 n = (if n < 10 then [digit_char n] else digits10 (n div 10) @ [digit_char (n mod 10)])"

declare digits10.simps [simp del]

definition number_toString :: "int \<Rightarrow> string" where
  "number_toString i = (if i < 0 then CHR ''-'' # digits10 (nat (- i)) else digits10 (nat i))"

text \<open>Reading a decimal string back (used to compare rendered times).\<close>

definition digit_val :: "char \<Rightarrow> nat" where
  "digit_val c = of_char c - 48"

definition parse_digits :: "string \<Rightarrow> nat" where
  "parse_digits s = foldl (\<lambda>acc c. 10 * acc + digit_val c) 0 s"

definition parse_decimal :: "string \<Rightarrow> int" where
  "parse_decimal s =
     (case s of
        [] \<Rightarrow> 0
      | c # cs \<Rightarrow> if c = CHR ''-'' then - int (parse_digits cs) else int (parse_digits s))"

section \<open>The job registry and HTTP responses\<close>

text \<open>
  \<^verbatim>\<open>const jobs = new Map()\<close>: job ids to job objects. A job object is written whole by
  every \<^verbatim>\<open>jobs.set\<close>; a literal without \<^verbatim>\<open>result\<close> leaves that property \<^verbatim>\<open>undefined\<close>.
\<close>

record job =
  status :: string
  result :: jsval

type_synonym jobs = "string \<rightharpoonup> job"

text \<open>
  \<^verbatim>\<open>res.status(code).json(obj)\<close>: the body is \<^verbatim>\<open>JSON.stringify(obj)\<close>, which leaves out
  every property whose value is \<^verbatim>\<open>undefined\<close>.
\<close>

datatype response = Response nat "(string \<times> json) list"

fun stringify_fields :: "(string \<times> jsval) list \<Rightarrow> (string \<times> json) list" where
  "stringify_fields [] = []"
| "stringify_fields ((k, Undefined) # fs) = stringify_fields fs"
| "stringify_fields ((k, Val j) # fs) = (k, j) # stringify_fields fs"

definition res_json :: "nat \<Rightarrow> (string \<times> jsval) list \<Rightarrow> response" where
  "res_json code props = Response code (stringify_fields props)"

fun status_code :: "response \<Rightarrow> nat" where
  "status_code (Response c b) = c"

fun body :: "response \<Rightarrow> (string \<times> json) list" where
  "body (Response c b) = b"

section \<open>GET /status\<close>

text \<open>
  \<^verbatim>\<open>req.query.job_id\<close> is absent, a string, or (for a repeated or bracketed parameter) an
  array or object, which is truthy and is never a key of \<^verbatim>\<open>jobs\<close>.
\<close>

datatype query_param = QAbsent | QString string | QOther

fun status_handler :: "jobs \<Rightarrow> query_param \<Rightarrow> response" where
  "status_handler js (QString jobId) =
     (if jobId = [] \<or> js jobId = None
      then res_json 404 [(''error'', Val (JStr ''Job not found''))]
      else (case js jobId of
              Some j \<Rightarrow> res_json 200
                [(''job_id'', Val (JStr jobId)), (''status'', Val (JStr (status j))), (''result'', result j)]
            | None \<Rightarrow> res_json 404 [(''error'', Val (JStr ''Job not found''))]))"
| "status_handler js _ = res_json 404 [(''error'', Val (JStr ''Job not found''))]"

section \<open>POST /start\_job\<close>

text \<open>
  What the handler does to the outside, in order: a write to \<^verbatim>\<open>jobs\<close>, the HTTP response,
  the 5000 ms wait of the polling loop, the GET to the payment service, the call of
  \<^verbatim>\<open>api.increment\<close>, and an exception that leaves the handler uncaught. Logging is not
  modelled.
\<close>

datatype effect =
    JobsSet string job
  | Send response
  | Wait nat
  | PaymentGet string
  | Increment
  | Uncaught thrown

text \<open>
  \<^verbatim>\<open>inputData.find((entry) => entry.key === 'task')\<close>: the first entry whose \<^verbatim>\<open>key\<close> is
  the string \<^verbatim>\<open>task\<close>; the callback throws on an entry that is \<^verbatim>\<open>null\<close>.
\<close>

fun find_task :: "json list \<Rightarrow> thrown + json option" where
  "find_task [] = Inr None"
| "find_task (entry # entries) =
     (case get_prop (Val entry) ''key'' of
        Inl e \<Rightarrow> Inl e
      | Inr k \<Rightarrow> if k = Val (JStr ''task'') then Inr (Some entry) else find_task entries)"

text \<open>
  The payment service as the polling loop sees it: each round of the loop ends with the
  query's outcome (\<^verbatim>\<open>check.data\<close>, or an exception from \<^verbatim>\<open>axios.get\<close>) and the reading of
  \<^verbatim>\<open>Date.now()\<close> at the loop test that follows it. A list that runs out stands for a query
  that never answers. \<^verbatim>\<open>api.increment\<close> returns a value, throws, or never answers.
\<close>

datatype query_reply = QueryThrew thrown | QueryReturned jsval

record tick =
  at :: int
  reply :: query_reply

datatype inc_outcome = IncPending | IncThrew thrown | IncReturned jsval

datatype poll_outcome = Confirmed | TimedOut | PollThrew thrown | PollPending

definition reports_success :: "jsval \<Rightarrow> bool" where
  "reports_success d = (opt_prop (opt_prop d ''data'') ''status'' = Val (JStr ''Success''))"

text \<open>
  \<^verbatim>\<open>while (!confirmed && Date.now() - start < timeout)\<close> with \<^verbatim>\<open>timeout = 120000\<close>; \<open>now\<close> is
  the reading of \<^verbatim>\<open>Date.now()\<close> at the current loop test.
\<close>

fun poll :: "string \<Rightarrow> int \<Rightarrow> int \<Rightarrow> tick list \<Rightarrow> effect list \<times> poll_outcome" where
  "poll paymentId start now [] =
     (if now - start < 120000 then ([Wait 5000, PaymentGet paymentId], PollPending)
      else ([], TimedOut))"
| "poll paymentId start now (tk # tks) =
     (if now - start < 120000 then
        (case reply tk of
           QueryThrew e \<Rightarrow> ([Wait 5000, PaymentGet paymentId], PollThrew e)
         | QueryReturned d \<Rightarrow>
             if reports_success d then ([Wait 5000, PaymentGet paymentId], Confirmed)
             else (case poll paymentId start (at tk) tks of
                     (tr, r) \<Rightarrow> (Wait 5000 # PaymentGet paymentId # tr, r)))
      else ([], TimedOut))"

text \<open>\<^verbatim>\<open>err instanceof Error ? err.message : 'Unknown error'\<close>\<close>

fun err_message :: "thrown \<Rightarrow> string" where
  "err_message (ErrorObj m) = m"
| "err_message NonError = ''Unknown error''"

definition fail_with :: "string \<Rightarrow> thrown \<Rightarrow> effect" where
  "fail_with jobId e = JobsSet jobId \<lparr>status = ''failed'', result = Val (JStr (err_message e))\<rparr>"

text \<open>The part of the handler after the response: the \<^verbatim>\<open>try\<close> block and its \<^verbatim>\<open>catch\<close>.\<close>

record lifecycle_env =
  pollStart :: int
  firstTest :: int
  ticks :: "tick list"
  incremented :: inc_outcome

definition run_increment :: "string \<Rightarrow> inc_outcome \<Rightarrow> effect list" where
  "run_increment jobId out =
     (case out of
        IncPending \<Rightarrow> []
      | IncThrew e \<Rightarrow> [fail_with jobId e]
      | IncReturned r \<Rightarrow>
          (case get_prop r ''txId'' of
             Inl e \<Rightarrow> [fail_with jobId e]
           | Inr txId \<Rightarrow> [JobsSet jobId \<lparr>status = ''completed'', result = txId\<rparr>]))"

definition lifecycle :: "string \<Rightarrow> string \<Rightarrow> lifecycle_env \<Rightarrow> effect list" where
  "lifecycle jobId paymentId env =
     (case poll paymentId (pollStart env) (firstTest env) (ticks env) of
        (tr, PollPending) \<Rightarrow> tr
      | (tr, PollThrew e) \<Rightarrow> tr @ [fail_with jobId e]
      | (tr, TimedOut) \<Rightarrow>
          tr @ [JobsSet jobId \<lparr>status = ''failed'', result = Val (JStr ''Payment timeout'')\<rparr>]
      | (tr, Confirmed) \<Rightarrow>
          tr @ [JobsSet jobId \<lparr>status = ''running'', result = Undefined\<rparr>, Increment]
             @ run_increment jobId (incremented env))"

text \<open>
  The values the handler draws for one request: the two \<^verbatim>\<open>uuidv4()\<close> results and
  \<^verbatim>\<open>Date.now()\<close> in milliseconds. \<open>inputHash\<close> is the constant of the enclosing
  \<^verbatim>\<open>runServer\<close>, drawn once before the route is registered.
\<close>

record request_env =
  jobId :: string
  paymentId :: string
  dateNow :: int

definition blockchainIdentifier :: string where
  "blockchainIdentifier = ''Cardano''"

definition accepted_response :: "string \<Rightarrow> request_env \<Rightarrow> response" where
  "accepted_response inputHash rq =
     (let now = dateNow rq div 1000;
          unlockTime = now + 600;
          externalDisputeUnlockTime = now + 1800;
          submitResultTime = now + 1200
      in res_json 200
           [(''job_id'', Val (JStr (jobId rq))),
            (''payment_id'', Val (JStr (paymentId rq))),
            (''inputHash'', Val (JStr inputHash)),
            (''blockchainIdentifier'', Val (JStr blockchainIdentifier)),
            (''unlockTime'', Val (JStr (number_toString unlockTime))),
            (''externalDisputeUnlockTime'', Val (JStr (number_toString externalDisputeUnlockTime))),
            (''submitResultTime'', Val (JStr (number_toString submitResultTime)))])"

definition start_job ::
  "string \<Rightarrow> jsval \<Rightarrow> request_env \<Rightarrow> lifecycle_env \<Rightarrow> effect list" where
  "start_job inputHash req_body rq env =
     (case get_prop req_body ''input_data'' of
        Inl e \<Rightarrow> [Uncaught e]
      | Inr inputData \<Rightarrow>
          (case inputData of
             Val (JArr entries) \<Rightarrow>
               (case find_task entries of
                  Inl e \<Rightarrow> [Uncaught e]
                | Inr found \<Rightarrow>
                    let task = opt_prop (case found of None \<Rightarrow> Undefined | Some entry \<Rightarrow> Val entry) ''value''
                    in if task \<noteq> Val (JStr ''increment'')
                       then [Send (res_json 400 [(''error'', Val (JStr ''Unsupported task''))])]
                       else JobsSet (jobId rq) \<lparr>status = ''awaiting_payment'', result = Val JNull\<rparr>
                            # Send (accepted_response inputHash rq)
                            # lifecycle (jobId rq) (paymentId rq) env)
           | _ \<Rightarrow> [Send (res_json 400 [(''error'', Val (JStr ''input_data must be an array''))])]))"

text \<open>The registry after a run of effects: only \<^verbatim>\<open>jobs.set\<close> changes it.\<close>

fun apply_effect :: "jobs \<Rightarrow> effect \<Rightarrow> jobs" where
  "apply_effect js (JobsSet k j) = js(k \<mapsto> j)"
| "apply_effect js _ = js"

definition run_effects :: "jobs \<Rightarrow> effect list \<Rightarrow> jobs" where
  "run_effects js tr = foldl apply_effect js tr"

text \<open>
  A request passes the handler's two checks when \<^verbatim>\<open>input_data\<close> is an array and the first
  entry whose \<^verbatim>\<open>key\<close> is \<^verbatim>\<open>task\<close> has the \<^verbatim>\<open>value\<close> \<^verbatim>\<open>increment\<close>.
\<close>

definition accepted :: "jsval \<Rightarrow> bool" where
  "accepted req_body =
     (case get_prop req_body ''input_data'' of
        Inr (Val (JArr entries)) \<Rightarrow>
          (case find_task entries of
             Inr (Some entry) \<Rightarrow> opt_prop (Val entry) ''value'' = Val (JStr ''increment'')
           | _ \<Rightarrow> False)
      | _ \<Rightarrow> False)"

text \<open>
  The same condition said of the array: the entries before the first one with key
  \<^verbatim>\<open>task\<close> are not \<^verbatim>\<open>null\<close>, and that first one has the value \<^verbatim>\<open>increment\<close>.
\<close>

definition has_key_task :: "json \<Rightarrow> bool" where
  "has_key_task entry = (opt_prop (Val entry) ''key'' = Val (JStr ''task''))"

definition first_task_is_increment :: "jsval \<Rightarrow> bool" where
  "first_task_is_increment req_body =
     (case get_prop req_body ''input_data'' of
        Inr (Val (JArr entries)) \<Rightarrow>
          (case dropWhile (\<lambda>e. \<not> has_key_task e) entries of
             [] \<Rightarrow> False
           | entry # _ \<Rightarrow>
               JNull \<notin> set (takeWhile (\<lambda>e. \<not> has_key_task e) entries)
               \<and> opt_prop (Val entry) ''value'' = Val (JStr ''increment''))
      | _ \<Rightarrow> False)"

text \<open>
  The specification's wording of a valid request, for comparison: \<^verbatim>\<open>input_data\<close> is an
  array that contains an entry with key \<^verbatim>\<open>task\<close> and value \<^verbatim>\<open>increment\<close>.
\<close>

definition is_increment_task :: "json \<Rightarrow> bool" where
  "is_increment_task entry =
     (opt_prop (Val entry) ''key'' = Val (JStr ''task'')
      \<and> opt_prop (Val entry) ''value'' = Val (JStr ''increment''))"

definition spec_valid_request :: "jsval \<Rightarrow> bool" where
  "spec_valid_request req_body =
     (case get_prop req_body ''input_data'' of
        Inr (Val (JArr entries)) \<Rightarrow> list_ex is_increment_task entries
      | _ \<Rightarrow> False)"

definition field :: "response \<Rightarrow> string \<Rightarrow> json option" where
  "field r k = map_of (body r) k"

text \<open>The job objects written under one id, in order, and the calls of the collaborators.\<close>

fun writes_of :: "string \<Rightarrow> effect list \<Rightarrow> job list" where
  "writes_of k [] = []"
| "writes_of k (JobsSet k' j # tr) = (if k' = k then j # writes_of k tr else writes_of k tr)"
| "writes_of k (_ # tr) = writes_of k tr"

fun is_external :: "effect \<Rightarrow> bool" where
  "is_external (PaymentGet p) = True"
| "is_external Increment = True"
| "is_external _ = False"

fun is_jobs_set :: "effect \<Rightarrow> bool" where
  "is_jobs_set (JobsSet k j) = True"
| "is_jobs_set _ = False"

subsection \<open>The job state machine\<close>

text \<open>
  The status strings the handler writes stand for the states \<open>AwaitingPayment\<close>,
  \<open>Running\<close>, \<open>Completed\<close> and \<open>Failed\<close>. The permitted moves are
  \<open>AwaitingPayment \<rightarrow> Running\<close>, \<open>AwaitingPayment \<rightarrow> Failed\<close>, \<open>Running \<rightarrow> Completed\<close> and
  \<open>Running \<rightarrow> Failed\<close>.
\<close>

definition allowed :: "string \<Rightarrow> string \<Rightarrow> bool" where
  "allowed s t =
     ((s, t) \<in> set [(''awaiting_payment'', ''running''), (''awaiting_payment'', ''failed''),
                    (''running'', ''completed''), (''running'', ''failed'')])"

definition terminal :: "string \<Rightarrow> bool" where
  "terminal s = (s = ''completed'' \<or> s = ''failed'')"

fun chain :: "string list \<Rightarrow> bool" where
  "chain [] = True"
| "chain [s] = True"
| "chain (s # t # r) = (allowed s t \<and> chain (t # r))"

fun starts_awaiting :: "string list \<Rightarrow> bool" where
  "starts_awaiting [] = True"
| "starts_awaiting (s # r) = (s = ''awaiting_payment'')"

text \<open>No write follows a write of a terminal status.\<close>

fun terminal_last :: "job list \<Rightarrow> bool" where
  "terminal_last [] = True"
| "terminal_last [w] = True"
| "terminal_last (w # v # r) = (\<not> terminal (status w) \<and> terminal_last (v # r))"

subsection \<open>Conditions on the payment service\<close>

text \<open>
  Every query answers, and none with the status \<^verbatim>\<open>Success\<close>; the clock readings of
  successive loop tests are at least the 5000 ms of the wait apart.
\<close>

definition answers_unconfirmed :: "tick \<Rightarrow> bool" where
  "answers_unconfirmed tk =
     (case reply tk of QueryThrew e \<Rightarrow> False | QueryReturned d \<Rightarrow> \<not> reports_success d)"

fun spaced :: "int \<Rightarrow> tick list \<Rightarrow> bool" where
  "spaced t [] = True"
| "spaced t (tk # tks) = (t + 5000 \<le> at tk \<and> spaced (at tk) tks)"

text \<open>No answer received within 120 seconds of the start of polling reports success.\<close>

definition no_success_within :: "int \<Rightarrow> tick \<Rightarrow> bool" where
  "no_success_within start tk =
     (case reply tk of
        QueryThrew e \<Rightarrow> True
      | QueryReturned d \<Rightarrow> \<not> (reports_success d \<and> at tk - start \<le> 120000))"

section \<open>Shutdown\<close>

text \<open>
  \<^verbatim>\<open>process.on('SIGINT', async () => { clearInterval(interval); await wallet.close();
  process.exit(0); })\<close>, the same in both server files. The handler runs up to the
  \<^verbatim>\<open>await\<close> when the signal is delivered and resumes when the promise of
  \<^verbatim>\<open>wallet.close()\<close> settles; it stays registered, so every delivery of the signal runs it
  again. Nothing runs once the process has exited. When \<^verbatim>\<open>wallet.close()\<close> rejects, the
  handler's promise rejects with nobody to catch it, which ends the process with exit code 1
  (Node.js 15 and later).
\<close>

record process =
  intervalActive :: bool
  walletCloseCalls :: nat
  pendingCloses :: nat
  exitCode :: "int option"

datatype process_event = SIGINT | WalletClosed | WalletCloseFailed

fun deliver :: "process \<Rightarrow> process_event \<Rightarrow> process" where
  "deliver p ev =
     (if exitCode p \<noteq> None then p
      else (case ev of
              SIGINT \<Rightarrow>
                p\<lparr>intervalActive := False,
                  walletCloseCalls := Suc (walletCloseCalls p),
                  pendingCloses := Suc (pendingCloses p)\<rparr>
            | WalletClosed \<Rightarrow>
                if pendingCloses p = 0 then p
                else p\<lparr>pendingCloses := pendingCloses p - 1, exitCode := Some 0\<rparr>
            | WalletCloseFailed \<Rightarrow>
                if pendingCloses p = 0 then p
                else p\<lparr>pendingCloses := pendingCloses p - 1, exitCode := Some 1\<rparr>))"

text \<open>The process once \<^verbatim>\<open>runServer\<close> has set up the timer, the routes and the handler.\<close>

definition serving :: process where
  "serving = \<lparr>intervalActive = True, walletCloseCalls = 0, pendingCloses = 0, exitCode = None\<rparr>"

definition run_process :: "process \<Rightarrow> process_event list \<Rightarrow> process" where
  "run_process p evs = foldl deliver p evs"

section \<open>Rendering the counter\<close>

text \<open>
  The glyphs of \<^verbatim>\<open>ASCII_NUMBERS\<close> are made of spaces and U+2588 (full block), which is one
  UTF-16 code unit, so a JavaScript string with them is a list of code units. In the
  pictures below \<open>#\<close> stands for U+2588.
\<close>

type_synonym ustring = "nat list"

definition row :: "string \<Rightarrow> ustring" where
  "row s = map (\<lambda>c. if c = CHR ''#'' then 9608 else of_char c) s"

definition ASCII_NUMBERS :: "char \<Rightarrow> ustring list option" where
  "ASCII_NUMBERS = map_of [
     (CHR ''0'', map row [''  ####  '', '' ##  ## '', ''##    ##'', ''##    ##'', '' ##  ## '', ''  ####  '']),
     (CHR ''1'', map row [''   ##   '', ''  ###   '', ''   ##   '', ''   ##   '', ''   ##   '', ''  ####  '']),
     (CHR ''2'', map row ['' ###### '', ''##    ##'', ''     ## '', ''   ##   '', '' ##     '', ''########'']),
     (CHR ''3'', map row ['' ###### '', ''##    ##'', ''    ### '', ''    ### '', ''##    ##'', '' ###### '']),
     (CHR ''4'', map row [''##    ##'', ''##    ##'', ''########'', ''     ## '', ''     ## '', ''     ## '']),
     (CHR ''5'', map row [''########'', ''##      '', ''####### '', ''      ##'', ''##    ##'', '' ###### '']),
     (CHR ''6'', map row ['' ###### '', ''##      '', ''####### '', ''##    ##'', ''##    ##'', '' ###### '']),
     (CHR ''7'', map row [''########'', ''     ## '', ''    ##  '', ''   ##   '', ''  ##    '', '' ##     '']),
     (CHR ''8'', map row ['' ###### '', ''##    ##'', '' ###### '', ''##    ##'', ''##    ##'', '' ###### '']),
     (CHR ''9'', map row ['' ###### '', ''##    ##'', ''##    ##'', '' #######'', ''      ##'', '' ###### ''])]"

text \<open>
  \<^verbatim>\<open>lines[lineIndex] += line + sep\<close> for each row of a glyph. Every glyph has six rows and
  \<^verbatim>\<open>lines\<close> has six entries, so the index is always in range.
\<close>

fun add_rows :: "nat \<Rightarrow> ustring list \<Rightarrow> ustring \<Rightarrow> ustring list \<Rightarrow> ustring list" where
  "add_rows lineIndex [] sep lines = lines"
| "add_rows lineIndex (line # rest) sep lines =
     add_rows (Suc lineIndex) rest sep (lines[lineIndex := lines ! lineIndex @ line @ sep])"

text \<open>\<^verbatim>\<open>digits.forEach((digit, index) => ...)\<close> with \<open>n = digits.length\<close>.\<close>

fun add_digits :: "nat \<Rightarrow> nat \<Rightarrow> string \<Rightarrow> ustring list \<Rightarrow> ustring list" where
  "add_digits n index [] lines = lines"
| "add_digits n index (digit # rest) lines =
     add_digits n (Suc index) rest
       (case ASCII_NUMBERS digit of
          None \<Rightarrow> lines
        | Some asciiDigit \<Rightarrow> add_rows 0 asciiDigit (if index < n - 1 then [32, 32] else []) lines)"

text \<open>\<^verbatim>\<open>Array.prototype.join\<close> and \<^verbatim>\<open>String.prototype.split\<close> on one code unit.\<close>

fun join :: "ustring \<Rightarrow> ustring list \<Rightarrow> ustring" where
  "join sep [] = []"
| "join sep [x] = x"
| "join sep (x # y # r) = x @ sep @ join sep (y # r)"

fun split_on :: "nat \<Rightarrow> ustring \<Rightarrow> ustring list" where
  "split_on c [] = [[]]"
| "split_on c (x # xs) =
     (if x = c then [] # split_on c xs
      else (case split_on c xs of [] \<Rightarrow> [[x]] | l # ls \<Rightarrow> (x # l) # ls))"

text \<open>
  \<^verbatim>\<open>numberToAscii\<close> reads its argument only through \<^verbatim>\<open>num.toString().split('')\<close>; the
  model takes that text.
\<close>

definition numberToAscii :: "string \<Rightarrow> ustring" where
  "numberToAscii num_text =
     join [10] (add_digits (length num_text) 0 num_text (replicate 6 []))"

text \<open>
  The texts \<^verbatim>\<open>Number.prototype.toString\<close> returns: \<^verbatim>\<open>NaN\<close>, \<^verbatim>\<open>Infinity\<close>,
  \<^verbatim>\<open>-Infinity\<close>, or an optional minus sign, decimal digits, an optional fraction and an
  optional exponent such as \<^verbatim>\<open>e+21\<close> or \<^verbatim>\<open>e-7\<close>.
\<close>

definition is_digit :: "char \<Rightarrow> bool" where
  "is_digit c = (c \<in> set ''0123456789'')"

fun exponent_text :: "string \<Rightarrow> bool" where
  "exponent_text (e # sg # ds) =
     (e = CHR ''e'' \<and> (sg = CHR ''+'' \<or> sg = CHR ''-'') \<and> ds \<noteq> [] \<and> list_all is_digit ds)"
| "exponent_text _ = False"

fun fraction_text :: "string \<Rightarrow> bool" where
  "fraction_text (c # r) =
     (c = CHR ''.'' \<and> takeWhile is_digit r \<noteq> []
      \<and> (dropWhile is_digit r = [] \<or> exponent_text (dropWhile is_digit r)))"
| "fraction_text [] = False"

definition unsigned_text :: "string \<Rightarrow> bool" where
  "unsigned_text s =
     (takeWhile is_digit s \<noteq> []
      \<and> (dropWhile is_digit s = [] \<or> fraction_text (dropWhile is_digit s)
          \<or> exponent_text (dropWhile is_digit s)))"

definition number_text :: "string \<Rightarrow> bool" where
  "number_text s =
     (s = ''NaN'' \<or> s = ''Infinity'' \<or> s = ''-Infinity'' \<or> unsigned_text s
      \<or> (case s of [] \<Rightarrow> False | c # r \<Rightarrow> c = CHR ''-'' \<and> unsigned_text r))"

text \<open>
  What a line of the picture should be: the rows of the characters that have a glyph, with
  two spaces between neighbours.
\<close>

definition recognized :: "char \<Rightarrow> bool" where
  "recognized d = (ASCII_NUMBERS d \<noteq> None)"

definition glyph_row :: "nat \<Rightarrow> char \<Rightarrow> ustring" where
  "glyph_row r d = (case ASCII_NUMBERS d of None \<Rightarrow> [] | Some g \<Rightarrow> g ! r)"

definition art_line :: "nat \<Rightarrow> string \<Rightarrow> ustring" where
  "art_line r ds = join [32, 32] (map (glyph_row r) (filter recognized ds))"

text \<open>A text with no glyph character at all, or with one in the last place.\<close>

definition digit_final :: "string \<Rightarrow> bool" where
  "digit_final ds = (filter recognized ds = [] \<or> (ds \<noteq> [] \<and> recognized (last ds)))"

section \<open>Scenarios\<close>

text \<open>
  The request of the specification's scenario, two draws of request values, and answers of
  the payment service.
\<close>

definition scenario_body :: jsval where
  "scenario_body =
     Val (JObj [(''input_data'', JArr [JObj [(''key'', JStr ''task''), (''value'', JStr ''increment'')]])])"

definition scenario_request :: request_env where
  "scenario_request = \<lparr>jobId = ''job-1'', paymentId = ''pay-1'', dateNow = 1700000000123\<rparr>"

definition second_request :: request_env where
  "second_request = \<lparr>jobId = ''job-2'', paymentId = ''pay-2'', dateNow = 1700000450000\<rparr>"

definition success_reply :: query_reply where
  "success_reply = QueryReturned (Val (JObj [(''data'', JObj [(''status'', JStr ''Success'')])]))"

definition pending_reply :: query_reply where
  "pending_reply = QueryReturned (Val (JObj [(''data'', JObj [(''status'', JStr ''Pending'')])]))"

definition unanswered :: lifecycle_env where
  "unanswered = \<lparr>pollStart = 0, firstTest = 0, ticks = [], incremented = IncPending\<rparr>"

definition confirmed_waiting :: lifecycle_env where
  "confirmed_waiting =
     \<lparr>pollStart = 0, firstTest = 0, ticks = [\<lparr>at = 5003, reply = success_reply\<rparr>],
      incremented = IncPending\<rparr>"

definition paid_run :: lifecycle_env where
  "paid_run =
     \<lparr>pollStart = 0, firstTest = 0,
      ticks = [\<lparr>at = 5003, reply = pending_reply\<rparr>, \<lparr>at = 10007, reply = success_reply\<rparr>],
      incremented = IncReturned (Val (JObj [(''txId'', JStr ''tx-1'')]))\<rparr>"

text \<open>
  A body with two entries of key \<^verbatim>\<open>task\<close>: the first has the value \<^verbatim>\<open>decrement\<close>, the
  second the value \<^verbatim>\<open>increment\<close>.
\<close>

definition second_task_body :: jsval where
  "second_task_body =
     Val (JObj [(''input_data'',
       JArr [JObj [(''key'', JStr ''task''), (''value'', JStr ''decrement'')],
             JObj [(''key'', JStr ''task''), (''value'', JStr ''increment'')]])])"

text \<open>A body whose \<^verbatim>\<open>input_data\<close> is the array \<^verbatim>\<open>[null]\<close>.\<close>

definition null_entry_body :: jsval where
  "null_entry_body = Val (JObj [(''input_data'', JArr [JNull])])"

text \<open>The first query fails; the second one would have reported success.\<close>

definition query_fails :: lifecycle_env where
  "query_fails =
     \<lparr>pollStart = 0, firstTest = 0,
      ticks = [\<lparr>at = 5003, reply = QueryThrew (ErrorObj ''Network Error'')\<rparr>,
               \<lparr>at = 10007, reply = success_reply\<rparr>],
      incremented = IncReturned (Val (JObj [(''txId'', JStr ''tx-1'')]))\<rparr>"

text \<open>One unconfirmed answer, then a failing query.\<close>

definition later_query_fails :: lifecycle_env where
  "later_query_fails =
     \<lparr>pollStart = 0, firstTest = 0,
      ticks = [\<lparr>at = 5003, reply = pending_reply\<rparr>]
              @ \<lparr>at = 10007, reply = QueryThrew (ErrorObj ''Network Error'')\<rparr>
              # [\<lparr>at = 15010, reply = success_reply\<rparr>],
      incremented = IncReturned (Val (JObj [(''txId'', JStr ''tx-1'')]))\<rparr>"

text \<open>
  Rounds of 5002 ms that all answer \<^verbatim>\<open>Pending\<close>. With 23 of them the loop test at
  115046 ms still passes, so a 24th query is made; it is answered at 120048 ms.
\<close>

fun pending_ticks :: "nat \<Rightarrow> int \<Rightarrow> tick list" where
  "pending_ticks 0 t = []"
| "pending_ticks (Suc n) t = \<lparr>at = t, reply = pending_reply\<rparr> # pending_ticks n (t + 5002)"

definition late_success :: lifecycle_env where
  "late_success =
     \<lparr>pollStart = 0, firstTest = 0,
      ticks = pending_ticks 23 5002 @ [\<lparr>at = 120048, reply = success_reply\<rparr>],
      incremented = IncReturned (Val (JObj [(''txId'', JStr ''tx-1'')]))\<rparr>"

definition never_confirmed :: lifecycle_env where
  "never_confirmed =
     \<lparr>pollStart = 0, firstTest = 0, ticks = pending_ticks 30 5002, incremented = IncPending\<rparr>"

text \<open>The number of GETs to the payment service in a run.\<close>

fun payment_queries :: "effect list \<Rightarrow> nat" where
  "payment_queries [] = 0"
| "payment_queries (PaymentGet p # tr) = Suc (payment_queries tr)"
| "payment_queries (_ # tr) = payment_queries tr"

section \<open>Decimal rendering\<close>

lemma digit_cases:
  "d < 10 \<Longrightarrow> d = 0 \<or> d = 1 \<or> d = 2 \<or> d = 3 \<or> d = 4 \<or> d = 5 \<or> d = 6 \<or> d = 7 \<or> d = 8 \<or> d = (9::nat)"
  by arith

lemma of_char_digit_char: "d < 10 \<Longrightarrow> (of_char (digit_char d) :: nat) = 48 + d"
  using digit_cases [of d] by (auto simp: digit_char_def)

lemma digit_val_digit_char: "d < 10 \<Longrightarrow> digit_val (digit_char d) = d"
  by (simp add: digit_val_def of_char_digit_char)

lemma parse_digits_snoc: "parse_digits (s @ [c]) = 10 * parse_digits s + digit_val c"
  by (simp add: parse_digits_def)

lemma parse_digits_digits10: "parse_digits (digits10 n) = n"
proof (induction n rule: digits10.induct)
  case (1 n)
  show ?case
  proof (cases "n < 10")
    case True
    then show ?thesis
      by (subst digits10.simps) (simp add: parse_digits_def digit_val_digit_char)
  next
    case False
    with 1 have "parse_digits (digits10 (n div 10)) = n div 10" by simp
    with False show ?thesis
      by (subst digits10.simps) (simp add: parse_digits_snoc digit_val_digit_char)
  qed
qed

lemma digit_char_not_minus: "d < 10 \<Longrightarrow> digit_char d \<noteq> CHR ''-''"
proof
  assume d: "d < 10" and eq: "digit_char d = CHR ''-''"
  from eq have "(of_char (digit_char d) :: nat) = of_char CHR ''-''" by simp
  with d show False by (simp add: of_char_digit_char)
qed

lemma digits10_nonempty: "digits10 n \<noteq> []"
  by (subst digits10.simps) simp

lemma hd_digits10: "hd (digits10 n) \<noteq> CHR ''-''"
proof (induction n rule: digits10.induct)
  case (1 n)
  show ?case
  proof (cases "n < 10")
    case True
    then show ?thesis by (subst digits10.simps) (simp add: digit_char_not_minus)
  next
    case False
    with 1 have "hd (digits10 (n div 10)) \<noteq> CHR ''-''" by simp
    with False show ?thesis
      by (subst digits10.simps) (simp add: digits10_nonempty)
  qed
qed

lemma parse_decimal_number_toString: "parse_decimal (number_toString i) = i"
proof (cases "i < 0")
  case True
  then show ?thesis
    by (simp add: parse_decimal_def number_toString_def parse_digits_digits10)
next
  case False
  obtain c cs where cs: "digits10 (nat i) = c # cs"
    using digits10_nonempty [of "nat i"] by (cases "digits10 (nat i)") auto
  with hd_digits10 [of "nat i"] have "c \<noteq> CHR ''-''" by simp
  with False cs parse_digits_digits10 [of "nat i"] show ?thesis
    by (simp add: parse_decimal_def number_toString_def)
qed

section \<open>The effects of POST /start\_job\<close>

lemma poll_effects: "set (fst (poll p s n tks)) \<subseteq> {Wait 5000, PaymentGet p}"
proof (induction tks arbitrary: n)
  case Nil
  show ?case by simp
next
  case (Cons tk tks)
  have "set (fst (poll p s (at tk) tks)) \<subseteq> {Wait 5000, PaymentGet p}" by (rule Cons.IH)
  then show ?case
    by (auto split: query_reply.splits prod.splits)
qed

lemma writes_of_append: "writes_of k (xs @ ys) = writes_of k xs @ writes_of k ys"
  by (induction k xs rule: writes_of.induct) simp_all

lemma writes_of_none: "\<forall>e \<in> set tr. \<not> is_jobs_set e \<Longrightarrow> writes_of k tr = []"
  by (induction k tr rule: writes_of.induct) simp_all

lemma poll_no_writes: "writes_of k (fst (poll p s n tks)) = []"
proof (rule writes_of_none, rule ballI)
  fix e assume "e \<in> set (fst (poll p s n tks))"
  with poll_effects [of p s n tks] have "e = Wait 5000 \<or> e = PaymentGet p" by auto
  then show "\<not> is_jobs_set e" by auto
qed

lemma poll_no_send: "Send r \<notin> set (fst (poll p s n tks))"
  using poll_effects [of p s n tks] by auto

lemma lifecycle_no_send: "Send r \<notin> set (lifecycle j p env)"
proof -
  obtain tr out where po: "poll p (pollStart env) (firstTest env) (ticks env) = (tr, out)"
    by (cases "poll p (pollStart env) (firstTest env) (ticks env)")
  with poll_no_send [of r p "pollStart env" "firstTest env" "ticks env"] have "Send r \<notin> set tr"
    by simp
  with po show ?thesis
    by (auto simp: lifecycle_def fail_with_def run_increment_def
        split: poll_outcome.splits inc_outcome.splits sum.splits)
qed

lemma opt_prop_undefined [simp]: "opt_prop Undefined k = Undefined"
  by (simp add: opt_prop_def)

lemma start_job_accepted:
  assumes "accepted b"
  shows "start_job h b rq env =
     JobsSet (jobId rq) \<lparr>status = ''awaiting_payment'', result = Val JNull\<rparr>
     # Send (accepted_response h rq) # lifecycle (jobId rq) (paymentId rq) env"
proof -
  from assms obtain entries where ip: "get_prop b ''input_data'' = Inr (Val (JArr entries))"
    by (simp add: accepted_def split: sum.splits jsval.splits json.splits)
  with assms obtain entry where ft: "find_task entries = Inr (Some entry)"
    by (simp add: accepted_def split: sum.splits option.splits)
  with assms ip have "opt_prop (Val entry) ''value'' = Val (JStr ''increment'')"
    by (simp add: accepted_def)
  with ip ft show ?thesis
    by (simp add: start_job_def)
qed

lemma start_job_rejected:
  assumes "\<not> accepted b"
  shows "start_job h b rq env = [Send (res_json 400 [(''error'', Val (JStr ''input_data must be an array''))])]
   \<or> start_job h b rq env = [Send (res_json 400 [(''error'', Val (JStr ''Unsupported task''))])]
   \<or> (\<exists>e. start_job h b rq env = [Uncaught e])"
proof (cases "get_prop b ''input_data''")
  case (Inl e)
  then show ?thesis by (simp add: start_job_def)
next
  case (Inr inputData)
  show ?thesis
  proof (cases "\<exists>entries. inputData = Val (JArr entries)")
    case False
    with Inr show ?thesis
      by (simp add: start_job_def split: jsval.splits json.splits)
  next
    case True
    then obtain entries where ia: "inputData = Val (JArr entries)" by blast
    show ?thesis
    proof (cases "find_task entries")
      case (Inl e)
      with Inr ia show ?thesis by (simp add: start_job_def)
    next
      case found: (Inr found)
      show ?thesis
      proof (cases found)
        case None
        with Inr ia found show ?thesis by (simp add: start_job_def)
      next
        case (Some entry)
        with assms Inr ia found have "opt_prop (Val entry) ''value'' \<noteq> Val (JStr ''increment'')"
          by (simp add: accepted_def)
        with Some Inr ia found show ?thesis by (simp add: start_job_def)
      qed
    qed
  qed
qed

lemma status_code_accepted: "status_code (accepted_response h rq) = 200"
  by (simp add: accepted_response_def res_json_def Let_def)

lemma send_200:
  assumes "Send r \<in> set (start_job h b rq env)" and "status_code r = 200"
  shows "r = accepted_response h rq"
proof (cases "accepted b")
  case True
  with assms(1) lifecycle_no_send show ?thesis
    by (auto simp: start_job_accepted)
next
  case False
  from start_job_rejected [OF False, of h rq env] assms show ?thesis
    by (auto simp: res_json_def)
qed


lemma start_job_rejected_quiet:
  assumes "\<not> accepted b"
  shows "\<forall>e \<in> set (start_job h b rq env). \<not> is_jobs_set e \<and> \<not> is_external e"
  using start_job_rejected [OF assms, of h rq env] by auto

text \<open>
  Every request that is not accepted is answered with 400, unless the body itself is
  \<^verbatim>\<open>null\<close> or \<^verbatim>\<open>undefined\<close> or the array holds a \<^verbatim>\<open>null\<close> entry.
\<close>

lemma find_task_no_null: "JNull \<notin> set entries \<Longrightarrow> \<exists>found. find_task entries = Inr found"
proof (induction entries)
  case Nil
  show ?case by simp
next
  case (Cons entry entries)
  then have "entry \<noteq> JNull" by auto
  then obtain k where "get_prop (Val entry) ''key'' = Inr k" by (cases entry) simp_all
  with Cons show ?case by auto
qed

lemma start_job_invalid_400:
  assumes "get_prop b ''input_data'' = Inr v"
    and "\<forall>entries. v = Val (JArr entries) \<longrightarrow> JNull \<notin> set entries"
    and "\<not> accepted b"
  shows "\<exists>msg. start_job h b rq env = [Send (res_json 400 [(''error'', Val (JStr msg))])]"
proof -
  have "\<not> (\<exists>e. start_job h b rq env = [Uncaught e])"
  proof (cases "\<exists>entries. v = Val (JArr entries)")
    case False
    with assms(1) show ?thesis
      by (auto simp: start_job_def split: jsval.splits json.splits)
  next
    case True
    then obtain entries where v: "v = Val (JArr entries)" by blast
    with assms(2) have "JNull \<notin> set entries" by simp
    then obtain found where "find_task entries = Inr found" using find_task_no_null by blast
    with assms(1) v show ?thesis by (simp add: start_job_def Let_def)
  qed
  with start_job_rejected [OF assms(3), of h rq env] show ?thesis by blast
qed

lemma accepted_scenario: "accepted scenario_body"
  by (simp add: accepted_def scenario_body_def opt_prop_def)

lemma scenario_sends:
  "Send (accepted_response h rq) \<in> set (start_job h scenario_body rq env)"
  by (simp add: start_job_accepted [OF accepted_scenario])

section \<open>Time fields and constants of the response\<close>

text \<open>
  C7. In every 200 response of \<^verbatim>\<open>/start_job\<close> the three time fields are the decimal
  renderings of \<open>createdAt + 600\<close> (unlockTime), \<open>createdAt + 1200\<close> (submitResultTime) and
  \<open>createdAt + 1800\<close> (externalDisputeUnlockTime), where \<open>createdAt\<close> is
  \<^verbatim>\<open>Math.floor(Date.now() / 1000)\<close>; read back as decimal numbers they are those values, and
  unlockTime is below submitResultTime, which is below externalDisputeUnlockTime.
  (\<^verbatim>\<open>Date.now()\<close> is an integer of magnitude below \<open>2^53\<close>, so the arithmetic on
  JavaScript numbers is exact and is integer arithmetic here.)
\<close>

theorem start_job_time_fields:
  assumes "Send r \<in> set (start_job h b rq env)" and "status_code r = 200"
  shows "field r ''unlockTime'' = Some (JStr (number_toString (dateNow rq div 1000 + 600)))
       \<and> field r ''submitResultTime'' = Some (JStr (number_toString (dateNow rq div 1000 + 1200)))
       \<and> field r ''externalDisputeUnlockTime'' = Some (JStr (number_toString (dateNow rq div 1000 + 1800)))
       \<and> parse_decimal (number_toString (dateNow rq div 1000 + 600)) = dateNow rq div 1000 + 600
       \<and> parse_decimal (number_toString (dateNow rq div 1000 + 1200)) = dateNow rq div 1000 + 1200
       \<and> parse_decimal (number_toString (dateNow rq div 1000 + 1800)) = dateNow rq div 1000 + 1800
       \<and> parse_decimal (number_toString (dateNow rq div 1000 + 600))
           < parse_decimal (number_toString (dateNow rq div 1000 + 1200))
       \<and> parse_decimal (number_toString (dateNow rq div 1000 + 1200))
           < parse_decimal (number_toString (dateNow rq div 1000 + 1800))"
proof -
  have "r = accepted_response h rq" using assms by (rule send_200)
  then have "field r ''unlockTime'' = Some (JStr (number_toString (dateNow rq div 1000 + 600)))"
    and "field r ''submitResultTime'' = Some (JStr (number_toString (dateNow rq div 1000 + 1200)))"
    and "field r ''externalDisputeUnlockTime'' = Some (JStr (number_toString (dateNow rq div 1000 + 1800)))"
    by (simp_all add: field_def accepted_response_def res_json_def Let_def)
  then show ?thesis
    by (simp add: parse_decimal_number_toString)
qed

theorem start_job_time_fields_witness:
  "status_code (accepted_response ''hash-1'' scenario_request) = 200
   \<and> field (accepted_response ''hash-1'' scenario_request) ''unlockTime'' = Some (JStr ''1700000600'')
   \<and> field (accepted_response ''hash-1'' scenario_request) ''submitResultTime'' = Some (JStr ''1700001200'')
   \<and> field (accepted_response ''hash-1'' scenario_request) ''externalDisputeUnlockTime'' = Some (JStr ''1700001800'')
   \<and> parse_decimal ''1700000600'' < parse_decimal ''1700001200''
   \<and> parse_decimal ''1700001200'' < parse_decimal ''1700001800''"
proof -
  have s: "Send (accepted_response ''hash-1'' scenario_request)
             \<in> set (start_job ''hash-1'' scenario_body scenario_request unanswered)"
    by (rule scenario_sends)
  have c: "status_code (accepted_response ''hash-1'' scenario_request) = 200"
    by (rule status_code_accepted)
  have d: "number_toString 1700000600 = ''1700000600''"
    "number_toString 1700001200 = ''1700001200''"
    "number_toString 1700001800 = ''1700001800''"
    by (simp_all add: number_toString_def digits10.simps digit_char_def)
  from start_job_time_fields [OF s c] c show ?thesis
    by (simp add: scenario_request_def d)
qed

text \<open>
  C9. Two 200 responses of \<^verbatim>\<open>/start_job\<close> in one run of the server carry the same
  \<open>inputHash\<close>, the value drawn once in \<^verbatim>\<open>runServer\<close> before the route is registered, and
  the \<open>blockchainIdentifier\<close> \<^verbatim>\<open>Cardano\<close>, whatever the two requests and their job ids,
  payment ids and times are.
\<close>

theorem start_job_same_inputHash:
  assumes "Send r1 \<in> set (start_job h b1 rq1 env1)" and "status_code r1 = 200"
    and "Send r2 \<in> set (start_job h b2 rq2 env2)" and "status_code r2 = 200"
  shows "field r1 ''inputHash'' = Some (JStr h) \<and> field r2 ''inputHash'' = field r1 ''inputHash''
       \<and> field r1 ''blockchainIdentifier'' = Some (JStr ''Cardano'')
       \<and> field r2 ''blockchainIdentifier'' = Some (JStr ''Cardano'')"
proof -
  have "r1 = accepted_response h rq1" using assms(1,2) by (rule send_200)
  moreover have "r2 = accepted_response h rq2" using assms(3,4) by (rule send_200)
  ultimately show ?thesis
    by (simp add: field_def accepted_response_def res_json_def Let_def blockchainIdentifier_def)
qed

theorem start_job_same_inputHash_witness:
  "field (accepted_response ''hash-1'' scenario_request) ''inputHash'' = Some (JStr ''hash-1'')
   \<and> field (accepted_response ''hash-1'' second_request) ''inputHash'' = Some (JStr ''hash-1'')
   \<and> field (accepted_response ''hash-1'' scenario_request) ''blockchainIdentifier'' = Some (JStr ''Cardano'')
   \<and> field (accepted_response ''hash-1'' second_request) ''blockchainIdentifier'' = Some (JStr ''Cardano'')"
proof -
  have s1: "Send (accepted_response ''hash-1'' scenario_request)
              \<in> set (start_job ''hash-1'' scenario_body scenario_request unanswered)"
    by (rule scenario_sends)
  have s2: "Send (accepted_response ''hash-1'' second_request)
              \<in> set (start_job ''hash-1'' scenario_body second_request unanswered)"
    by (rule scenario_sends)
  from start_job_same_inputHash [OF s1 status_code_accepted s2 status_code_accepted]
  show ?thesis by simp
qed

section \<open>Creation of a job\<close>

lemma reports_success_reply [simp]:
  "reports_success (Val (JObj [(''data'', JObj [(''status'', JStr ''Success'')])]))"
  "\<not> reports_success (Val (JObj [(''data'', JObj [(''status'', JStr ''Pending'')])]))"
  by (simp_all add: reports_success_def opt_prop_def)

lemma run_effects_append: "run_effects js (xs @ ys) = run_effects (run_effects js xs) ys"
  by (simp add: run_effects_def)

lemma run_effects_quiet: "\<forall>e \<in> set tr. \<not> is_jobs_set e \<Longrightarrow> run_effects js tr = js"
proof (induction tr arbitrary: js)
  case Nil
  show ?case by (simp add: run_effects_def)
next
  case (Cons e tr)
  then have "apply_effect js e = js" by (cases e) simp_all
  with Cons show ?case by (simp add: run_effects_def)
qed

lemma run_effects_poll: "run_effects js (fst (poll p s n tks)) = js"
proof (rule run_effects_quiet, rule ballI)
  fix e assume "e \<in> set (fst (poll p s n tks))"
  with poll_effects [of p s n tks] have "e = Wait 5000 \<or> e = PaymentGet p" by auto
  then show "\<not> is_jobs_set e" by auto
qed

lemma find_task_split:
  "find_task entries =
     (if JNull \<in> set (takeWhile (\<lambda>e. \<not> has_key_task e) entries)
      then Inl (type_error ''null'' ''key'')
      else (case dropWhile (\<lambda>e. \<not> has_key_task e) entries of
              [] \<Rightarrow> Inr None
            | entry # _ \<Rightarrow> Inr (Some entry)))"
proof (induction entries)
  case Nil
  show ?case by simp
next
  case (Cons entry entries)
  show ?case
  proof (cases "entry = JNull")
    case True
    then show ?thesis by (simp add: has_key_task_def opt_prop_def)
  next
    case False
    then obtain k where k: "get_prop (Val entry) ''key'' = Inr k" by (cases entry) simp_all
    then have "has_key_task entry \<longleftrightarrow> k = Val (JStr ''task'')"
      by (simp add: has_key_task_def opt_prop_def)
    with k False Cons.IH show ?thesis by simp
  qed
qed

lemma accepted_iff: "accepted b \<longleftrightarrow> first_task_is_increment b"
proof (cases "\<exists>entries. get_prop b ''input_data'' = Inr (Val (JArr entries))")
  case False
  then show ?thesis
    by (auto simp: accepted_def first_task_is_increment_def
        split: sum.splits jsval.splits json.splits)
next
  case True
  then obtain entries where ip: "get_prop b ''input_data'' = Inr (Val (JArr entries))" by blast
  let ?rest = "dropWhile (\<lambda>e. \<not> has_key_task e) entries"
  show ?thesis
  proof (cases "JNull \<in> set (takeWhile (\<lambda>e. \<not> has_key_task e) entries)")
    case True
    with ip show ?thesis
      by (simp add: accepted_def first_task_is_increment_def find_task_split split: list.splits)
  next
    case False
    show ?thesis
    proof (cases ?rest)
      case Nil
      with ip False show ?thesis
        by (simp add: accepted_def first_task_is_increment_def find_task_split del: dropWhile_eq_Nil_conv)
    next
      case (Cons entry rest)
      with ip False show ?thesis
        by (simp add: accepted_def first_task_is_increment_def find_task_split)
    qed
  qed
qed

lemma spec_valid_second_task: "spec_valid_request second_task_body"
  by (simp add: spec_valid_request_def second_task_body_def is_increment_task_def opt_prop_def)

text \<open>
  C2 as stated fails. A request is valid, in the specification's words, when its
  \<^verbatim>\<open>input_data\<close> contains an entry with key \<^verbatim>\<open>task\<close> and value \<^verbatim>\<open>increment\<close>. The handler
  looks at the first entry with key \<^verbatim>\<open>task\<close> only: with another value there, the request
  is answered with 400 and no job exists for a status query to report.
\<close>

theorem valid_request_rejected:
  "spec_valid_request second_task_body
   \<and> start_job ''hash-1'' second_task_body scenario_request confirmed_waiting =
       [Send (Response 400 [(''error'', JStr ''Unsupported task'')])]"
proof -
  have "start_job ''hash-1'' second_task_body scenario_request confirmed_waiting =
       [Send (Response 400 [(''error'', JStr ''Unsupported task'')])]"
    by (simp add: start_job_def second_task_body_def opt_prop_def res_json_def)
  with spec_valid_second_task show ?thesis by simp
qed

lemma poll_first_round:
  assumes "now - start < 120000"
  shows "take 2 (fst (poll p start now tks)) = [Wait 5000, PaymentGet p]"
proof (cases tks)
  case Nil
  with assms show ?thesis by simp
next
  case (Cons tk rest)
  with assms show ?thesis
    by (cases "reply tk") (simp_all add: split_beta)
qed

lemma lifecycle_starts_with_poll:
  "\<exists>rest. lifecycle j p env = fst (poll p (pollStart env) (firstTest env) (ticks env)) @ rest"
  by (cases "poll p (pollStart env) (firstTest env) (ticks env)")
     (auto simp: lifecycle_def split: poll_outcome.splits)

lemma run_effects_poll_prefix: "run_effects js (take n (fst (poll p s t tks))) = js"
proof (rule run_effects_quiet, rule ballI)
  fix e assume "e \<in> set (take n (fst (poll p s t tks)))"
  then have "e \<in> set (fst (poll p s t tks))" by (rule in_set_takeD)
  with poll_effects [of p s t tks] have "e = Wait 5000 \<or> e = PaymentGet p" by auto
  then show "\<not> is_jobs_set e" by auto
qed

text \<open>
  C2, as the code has it. For a request whose first entry with key \<^verbatim>\<open>task\<close> has the value
  \<^verbatim>\<open>increment\<close> (the entries before it not being \<^verbatim>\<open>null\<close>), the handler stores the job as
  \<^verbatim>\<open>awaiting_payment\<close> with result \<^verbatim>\<open>null\<close>, then sends the 200 response with \<open>job_id\<close>,
  \<open>payment_id\<close> and the time fields, and only then polls: when the first loop test passes,
  the next two effects are the wait of 5000 ms and the first query to the payment
  service. From the response up to the end of the polling, whatever the payment service
  answers, \<^verbatim>\<open>GET /status\<close> for that job id answers 200 with status \<^verbatim>\<open>awaiting_payment\<close>
  (the string the code uses for \<open>AwaitingPayment\<close>) and result \<^verbatim>\<open>null\<close>. The job id is a
  UUID, hence not the empty string.
\<close>

theorem start_job_responds_awaiting:
  assumes "first_task_is_increment b" and "jobId rq \<noteq> []"
  shows "start_job h b rq env =
           JobsSet (jobId rq) \<lparr>status = ''awaiting_payment'', result = Val JNull\<rparr>
           # Send (accepted_response h rq) # lifecycle (jobId rq) (paymentId rq) env
       \<and> status_code (accepted_response h rq) = 200
       \<and> field (accepted_response h rq) ''job_id'' = Some (JStr (jobId rq))
       \<and> field (accepted_response h rq) ''payment_id'' = Some (JStr (paymentId rq))
       \<and> (firstTest env - pollStart env < 120000 \<longrightarrow>
            take 2 (drop 2 (start_job h b rq env)) = [Wait 5000, PaymentGet (paymentId rq)])
       \<and> (\<forall>n. 2 \<le> n
              \<and> n \<le> 2 + length (fst (poll (paymentId rq) (pollStart env) (firstTest env) (ticks env)))
            \<longrightarrow> status_handler (run_effects js (take n (start_job h b rq env))) (QString (jobId rq)) =
                  Response 200 [(''job_id'', JStr (jobId rq)), (''status'', JStr ''awaiting_payment''),
                                (''result'', JNull)])"
proof -
  let ?po = "poll (paymentId rq) (pollStart env) (firstTest env) (ticks env)"
  let ?first = "JobsSet (jobId rq) \<lparr>status = ''awaiting_payment'', result = Val JNull\<rparr>"
  from assms(1) have acc: "accepted b" by (simp add: accepted_iff)
  obtain rest where lc: "lifecycle (jobId rq) (paymentId rq) env = fst ?po @ rest"
    using lifecycle_starts_with_poll by blast
  have tr: "start_job h b rq env = ?first # Send (accepted_response h rq) # fst ?po @ rest"
    using start_job_accepted [OF acc] lc by simp
  have head: "start_job h b rq env =
      ?first # Send (accepted_response h rq) # lifecycle (jobId rq) (paymentId rq) env"
    using acc by (rule start_job_accepted)
  have flds: "field (accepted_response h rq) ''job_id'' = Some (JStr (jobId rq))"
    "field (accepted_response h rq) ''payment_id'' = Some (JStr (paymentId rq))"
    by (simp_all add: field_def accepted_response_def res_json_def Let_def)
  have round: "firstTest env - pollStart env < 120000 \<longrightarrow>
      take 2 (drop 2 (start_job h b rq env)) = [Wait 5000, PaymentGet (paymentId rq)]"
  proof
    assume "firstTest env - pollStart env < 120000"
    then have t2: "take 2 (fst ?po) = [Wait 5000, PaymentGet (paymentId rq)]"
      by (rule poll_first_round)
    then have "length (take 2 (fst ?po)) = 2" by simp
    then have "2 \<le> length (fst ?po)" by simp
    with t2 show "take 2 (drop 2 (start_job h b rq env)) = [Wait 5000, PaymentGet (paymentId rq)]"
      by (simp add: tr)
  qed
  have seen: "\<forall>n. 2 \<le> n \<and> n \<le> 2 + length (fst ?po)
      \<longrightarrow> status_handler (run_effects js (take n (start_job h b rq env))) (QString (jobId rq)) =
          Response 200 [(''job_id'', JStr (jobId rq)), (''status'', JStr ''awaiting_payment''),
                        (''result'', JNull)]"
  proof (intro allI impI)
    fix n assume n: "2 \<le> n \<and> n \<le> 2 + length (fst ?po)"
    define m where "m = n - 2"
    with n have m: "n = Suc (Suc m)" and le: "m \<le> length (fst ?po)" by arith+
    have "take n (start_job h b rq env) = [?first, Send (accepted_response h rq)] @ take m (fst ?po)"
      using le by (simp add: tr m)
    then have "run_effects js (take n (start_job h b rq env)) =
        run_effects (run_effects js [?first, Send (accepted_response h rq)]) (take m (fst ?po))"
      by (simp only: run_effects_append)
    also have "\<dots> = run_effects js [?first, Send (accepted_response h rq)]"
      by (rule run_effects_poll_prefix)
    finally show "status_handler (run_effects js (take n (start_job h b rq env))) (QString (jobId rq)) =
          Response 200 [(''job_id'', JStr (jobId rq)), (''status'', JStr ''awaiting_payment''),
                        (''result'', JNull)]"
      using assms(2) by (simp add: run_effects_def res_json_def)
  qed
  from head flds round seen show ?thesis
    by (simp add: status_code_accepted)
qed

theorem start_job_responds_awaiting_witness:
  "first_task_is_increment scenario_body \<and> jobId scenario_request \<noteq> []
   \<and> firstTest confirmed_waiting - pollStart confirmed_waiting < 120000
   \<and> take 2 (drop 2 (start_job ''hash-1'' scenario_body scenario_request confirmed_waiting)) =
       [Wait 5000, PaymentGet (paymentId scenario_request)]
   \<and> status_handler
        (run_effects Map.empty (take 4 (start_job ''hash-1'' scenario_body scenario_request confirmed_waiting)))
        (QString (jobId scenario_request)) =
       Response 200 [(''job_id'', JStr (jobId scenario_request)), (''status'', JStr ''awaiting_payment''),
                     (''result'', JNull)]"
proof -
  have v: "first_task_is_increment scenario_body"
    using accepted_scenario by (simp add: accepted_iff)
  have j: "jobId scenario_request \<noteq> []" by (simp add: scenario_request_def)
  have f: "firstTest confirmed_waiting - pollStart confirmed_waiting < 120000"
    by (simp add: confirmed_waiting_def)
  have n: "(2::nat) \<le> 4 \<and> 4 \<le> 2 + length (fst (poll (paymentId scenario_request)
      (pollStart confirmed_waiting) (firstTest confirmed_waiting) (ticks confirmed_waiting)))"
    by (simp add: confirmed_waiting_def success_reply_def)
  from start_job_responds_awaiting [OF v j, of "''hash-1''" confirmed_waiting Map.empty]
  show ?thesis using v j f n by blast
qed

text \<open>
  C5. The code at a job whose payment is confirmed and whose increment has not returned
  yet: \<^verbatim>\<open>jobs.set(jobId, { status: 'running' })\<close> stores an object without \<^verbatim>\<open>result\<close>, so
  the body of \<^verbatim>\<open>GET /status\<close> has \<open>job_id\<close> and \<open>status\<close> only; the \<open>result\<close> field that
  the other writes provide (as \<^verbatim>\<open>null\<close> while awaiting payment) is missing.
\<close>

theorem status_running_has_no_result:
  "status_handler
     (run_effects Map.empty (start_job ''hash-1'' scenario_body scenario_request confirmed_waiting))
     (QString ''job-1'') =
   Response 200 [(''job_id'', JStr ''job-1''), (''status'', JStr ''running'')]"
  by (simp add: start_job_accepted [OF accepted_scenario] lifecycle_def confirmed_waiting_def
      success_reply_def run_increment_def run_effects_def scenario_request_def res_json_def)

text \<open>
  C6. The code at a body whose \<^verbatim>\<open>input_data\<close> is \<^verbatim>\<open>[null]\<close>, an array without an entry of
  key \<^verbatim>\<open>task\<close>: the callback of \<^verbatim>\<open>find\<close> reads \<^verbatim>\<open>entry.key\<close> of \<^verbatim>\<open>null\<close> and throws
  a TypeError outside the \<^verbatim>\<open>try\<close> block, so the handler sends no 400 response. (No job is
  created and no collaborator is called, as for every request that is not accepted.)
\<close>

theorem start_job_null_entry_throws:
  "start_job h null_entry_body rq env = [Uncaught (type_error ''null'' ''key'')]"
  by (simp add: start_job_def null_entry_body_def)

section \<open>The order of the writes to a job\<close>

lemma poll_fst_snd: "poll p s n tks = (fst (poll p s n tks), snd (poll p s n tks))"
  by simp

lemma lifecycle_writes_other: "k \<noteq> j \<Longrightarrow> writes_of k (lifecycle j p env) = []"
  by (cases "poll p (pollStart env) (firstTest env) (ticks env)")
     (use poll_no_writes [of k p "pollStart env" "firstTest env" "ticks env"] in
      \<open>auto simp: lifecycle_def writes_of_append fail_with_def run_increment_def
         split: poll_outcome.splits inc_outcome.splits sum.splits\<close>)

lemma lifecycle_writes:
  "writes_of j (lifecycle j p env) = [] 
   \<or> (\<exists>m. writes_of j (lifecycle j p env) = [\<lparr>status = ''failed'', result = Val (JStr m)\<rparr>])
   \<or> writes_of j (lifecycle j p env) = [\<lparr>status = ''running'', result = Undefined\<rparr>]
   \<or> (\<exists>v. writes_of j (lifecycle j p env) =
           [\<lparr>status = ''running'', result = Undefined\<rparr>, \<lparr>status = ''completed'', result = v\<rparr>])
   \<or> (\<exists>m. writes_of j (lifecycle j p env) =
           [\<lparr>status = ''running'', result = Undefined\<rparr>, \<lparr>status = ''failed'', result = Val (JStr m)\<rparr>])"
  by (cases "poll p (pollStart env) (firstTest env) (ticks env)")
     (use poll_no_writes [of j p "pollStart env" "firstTest env" "ticks env"] in
      \<open>auto simp: lifecycle_def writes_of_append fail_with_def run_increment_def
         split: poll_outcome.splits inc_outcome.splits sum.splits\<close>)

text \<open>
  C4. The statuses written under a job's id by its handler start with
  \<^verbatim>\<open>awaiting_payment\<close> and each next one is a permitted move of the state machine
  (\<open>AwaitingPayment \<rightarrow> Running\<close>, \<open>AwaitingPayment \<rightarrow> Failed\<close>, \<open>Running \<rightarrow> Completed\<close>,
  \<open>Running \<rightarrow> Failed\<close>); no write at all (of status or result) follows a write of
  \<^verbatim>\<open>completed\<close> or \<^verbatim>\<open>failed\<close>; and the handler writes under no other id. This holds for
  every request and every behaviour of the payment service and of the increment.
\<close>

theorem start_job_status_monotone:
  "starts_awaiting (map status (writes_of (jobId rq) (start_job h b rq env)))
   \<and> chain (map status (writes_of (jobId rq) (start_job h b rq env)))
   \<and> terminal_last (writes_of (jobId rq) (start_job h b rq env))
   \<and> (k \<noteq> jobId rq \<longrightarrow> writes_of k (start_job h b rq env) = [])"
proof (cases "accepted b")
  case False
  from start_job_rejected [OF False, of h rq env] show ?thesis
    by auto
next
  case True
  have tr: "start_job h b rq env =
           JobsSet (jobId rq) \<lparr>status = ''awaiting_payment'', result = Val JNull\<rparr>
           # Send (accepted_response h rq) # lifecycle (jobId rq) (paymentId rq) env"
    using True by (rule start_job_accepted)
  have other: "k \<noteq> jobId rq \<longrightarrow> writes_of k (start_job h b rq env) = []"
    by (simp add: tr lifecycle_writes_other)
  from lifecycle_writes [of "jobId rq" "paymentId rq" env]
  have "starts_awaiting (map status (writes_of (jobId rq) (start_job h b rq env)))
   \<and> chain (map status (writes_of (jobId rq) (start_job h b rq env)))
   \<and> terminal_last (writes_of (jobId rq) (start_job h b rq env))"
    by (elim disjE exE) (simp_all add: tr allowed_def terminal_def)
  with other show ?thesis by blast
qed

theorem start_job_status_monotone_witness:
  "''job-2'' \<noteq> jobId scenario_request
   \<and> writes_of ''job-2'' (start_job ''hash-1'' scenario_body scenario_request paid_run) = []
   \<and> chain (map status (writes_of (jobId scenario_request)
              (start_job ''hash-1'' scenario_body scenario_request paid_run)))
   \<and> terminal_last (writes_of (jobId scenario_request)
        (start_job ''hash-1'' scenario_body scenario_request paid_run))
   \<and> map status (writes_of ''job-1'' (start_job ''hash-1'' scenario_body scenario_request paid_run))
       = [''awaiting_payment'', ''running'', ''completed'']"
proof -
  have k: "''job-2'' \<noteq> jobId scenario_request" by (simp add: scenario_request_def)
  have w: "map status (writes_of ''job-1'' (start_job ''hash-1'' scenario_body scenario_request paid_run))
       = [''awaiting_payment'', ''running'', ''completed'']"
    by (simp add: start_job_accepted [OF accepted_scenario] lifecycle_def paid_run_def
        scenario_request_def run_increment_def pending_reply_def success_reply_def)
  from start_job_status_monotone [of scenario_request "''hash-1''" scenario_body paid_run "''job-2''"]
  show ?thesis using k w by blast
qed

section \<open>Payment polling\<close>

lemma payment_queries_append: "payment_queries (xs @ ys) = payment_queries xs + payment_queries ys"
  by (induction xs rule: payment_queries.induct) simp_all

text \<open>Polling through answers that do not confirm, up to a query that throws.\<close>

lemma poll_until_throw:
  assumes "now - start < 120000"
    and "list_all answers_unconfirmed pre"
    and "list_all (\<lambda>tk. at tk - start < 120000) pre"
  shows "snd (poll p start now (pre @ \<lparr>at = t, reply = QueryThrew e\<rparr> # post)) = PollThrew e
       \<and> payment_queries (fst (poll p start now (pre @ \<lparr>at = t, reply = QueryThrew e\<rparr> # post)))
           = Suc (length pre)"
  using assms
proof (induction pre arbitrary: now)
  case Nil
  then show ?case by simp
next
  case (Cons tk pre)
  from Cons.prems obtain d where d: "reply tk = QueryReturned d" "\<not> reports_success d"
    by (cases "reply tk") (auto simp: answers_unconfirmed_def)
  from Cons.prems have "at tk - start < 120000" "list_all answers_unconfirmed pre"
    "list_all (\<lambda>tk. at tk - start < 120000) pre" by simp_all
  then have "snd (poll p start (at tk) (pre @ \<lparr>at = t, reply = QueryThrew e\<rparr> # post)) = PollThrew e
       \<and> payment_queries (fst (poll p start (at tk) (pre @ \<lparr>at = t, reply = QueryThrew e\<rparr> # post)))
           = Suc (length pre)"
    by (rule Cons.IH)
  with Cons.prems(1) d show ?case
    by (simp add: split_beta)
qed

lemma lifecycle_poll_threw:
  assumes "snd (poll p (pollStart env) (firstTest env) (ticks env)) = PollThrew e"
  shows "lifecycle j p env =
           fst (poll p (pollStart env) (firstTest env) (ticks env)) @ [fail_with j e]"
  using assms
  by (cases "poll p (pollStart env) (firstTest env) (ticks env)") (simp add: lifecycle_def)

text \<open>
  C1, as the code has it. While the deadline has not passed, a query that answers
  without the status \<^verbatim>\<open>Success\<close> is treated as not yet confirmed and polling goes on;
  a query that fails (\<^verbatim>\<open>axios.get\<close> throws) ends the polling at once: no further query is
  made and the \<^verbatim>\<open>catch\<close> block moves the job from \<^verbatim>\<open>awaiting_payment\<close> to \<^verbatim>\<open>failed\<close>
  with the error's message as result.
\<close>

theorem failed_query_fails_job:
  assumes "accepted b"
    and "ticks env = pre @ \<lparr>at = t, reply = QueryThrew e\<rparr> # post"
    and "firstTest env - pollStart env < 120000"
    and "list_all answers_unconfirmed pre"
    and "list_all (\<lambda>tk. at tk - pollStart env < 120000) pre"
  shows "run_effects js (start_job h b rq env) (jobId rq) =
           Some \<lparr>status = ''failed'', result = Val (JStr (err_message e))\<rparr>
       \<and> payment_queries (start_job h b rq env) = Suc (length pre)"
proof -
  let ?po = "poll (paymentId rq) (pollStart env) (firstTest env) (ticks env)"
  from poll_until_throw [OF assms(3,4,5), of "paymentId rq" t e post] assms(2)
  have out: "snd ?po = PollThrew e" and n: "payment_queries (fst ?po) = Suc (length pre)"
    by simp_all
  have tr: "start_job h b rq env =
           JobsSet (jobId rq) \<lparr>status = ''awaiting_payment'', result = Val JNull\<rparr>
           # Send (accepted_response h rq) # fst ?po @ [fail_with (jobId rq) e]"
    using start_job_accepted [OF assms(1)] lifecycle_poll_threw [OF out] by simp
  have "run_effects js (start_job h b rq env) =
          run_effects (run_effects js [JobsSet (jobId rq) \<lparr>status = ''awaiting_payment'', result = Val JNull\<rparr>,
             Send (accepted_response h rq)]) (fst ?po @ [fail_with (jobId rq) e])"
    by (simp add: tr run_effects_def)
  also have "\<dots> = run_effects (run_effects js [JobsSet (jobId rq) \<lparr>status = ''awaiting_payment'', result = Val JNull\<rparr>,
             Send (accepted_response h rq)]) [fail_with (jobId rq) e]"
    by (simp add: run_effects_append run_effects_poll)
  finally have "run_effects js (start_job h b rq env) (jobId rq) =
           Some \<lparr>status = ''failed'', result = Val (JStr (err_message e))\<rparr>"
    by (simp add: run_effects_def fail_with_def)
  moreover have "payment_queries (start_job h b rq env) = Suc (length pre)"
    by (simp add: tr payment_queries_append n fail_with_def)
  ultimately show ?thesis by simp
qed

theorem failed_query_fails_job_witness:
  "accepted scenario_body
   \<and> ticks later_query_fails =
       [\<lparr>at = 5003, reply = pending_reply\<rparr>]
       @ \<lparr>at = 10007, reply = QueryThrew (ErrorObj ''Network Error'')\<rparr>
       # [\<lparr>at = 15010, reply = success_reply\<rparr>]
   \<and> firstTest later_query_fails - pollStart later_query_fails < 120000
   \<and> list_all answers_unconfirmed [\<lparr>at = 5003, reply = pending_reply\<rparr>]
   \<and> list_all (\<lambda>tk. at tk - pollStart later_query_fails < 120000) [\<lparr>at = 5003, reply = pending_reply\<rparr>]
   \<and> run_effects Map.empty (start_job ''hash-1'' scenario_body scenario_request later_query_fails)
        (jobId scenario_request) =
       Some \<lparr>status = ''failed'', result = Val (JStr ''Network Error'')\<rparr>
   \<and> payment_queries (start_job ''hash-1'' scenario_body scenario_request later_query_fails) = 2"
proof -
  have t: "ticks later_query_fails =
       [\<lparr>at = 5003, reply = pending_reply\<rparr>]
       @ \<lparr>at = 10007, reply = QueryThrew (ErrorObj ''Network Error'')\<rparr>
       # [\<lparr>at = 15010, reply = success_reply\<rparr>]"
    by (simp add: later_query_fails_def)
  have f: "firstTest later_query_fails - pollStart later_query_fails < 120000"
    by (simp add: later_query_fails_def)
  have u: "list_all answers_unconfirmed [\<lparr>at = 5003, reply = pending_reply\<rparr>]"
    by (simp add: answers_unconfirmed_def pending_reply_def)
  have i: "list_all (\<lambda>tk. at tk - pollStart later_query_fails < 120000)
             [\<lparr>at = 5003, reply = pending_reply\<rparr>]"
    by (simp add: later_query_fails_def)
  from failed_query_fails_job [OF accepted_scenario t f u i, of Map.empty "''hash-1''" scenario_request]
  show ?thesis using accepted_scenario t f u i by simp
qed

text \<open>
  C1 as stated fails: the first query fails 5 seconds into the polling, the service would
  have reported success on the next query, and yet the job is \<^verbatim>\<open>failed\<close> with the
  error's message and only one query was made.
\<close>

theorem failed_query_counterexample:
  "run_effects Map.empty (start_job ''hash-1'' scenario_body scenario_request query_fails) ''job-1'' =
     Some \<lparr>status = ''failed'', result = Val (JStr ''Network Error'')\<rparr>
   \<and> payment_queries (start_job ''hash-1'' scenario_body scenario_request query_fails) = 1"
  by (simp add: start_job_accepted [OF accepted_scenario] lifecycle_def query_fails_def
      run_effects_def scenario_request_def fail_with_def)

lemma poll_times_out:
  assumes "list_all answers_unconfirmed tks"
    and "spaced now tks"
    and "120000 - (now - start) \<le> 5000 * int (length tks)"
  shows "snd (poll p start now tks) = TimedOut"
  using assms
proof (induction tks arbitrary: now)
  case Nil
  then show ?case by simp
next
  case (Cons tk tks)
  show ?case
  proof (cases "now - start < 120000")
    case False
    then show ?thesis by simp
  next
    case True
    from Cons.prems obtain d where d: "reply tk = QueryReturned d" "\<not> reports_success d"
      by (cases "reply tk") (auto simp: answers_unconfirmed_def)
    from Cons.prems have "list_all answers_unconfirmed tks" "spaced (at tk) tks"
      "120000 - (at tk - start) \<le> 5000 * int (length tks)"
      by simp_all
    then have "snd (poll p start (at tk) tks) = TimedOut" by (rule Cons.IH)
    with True d show ?thesis by (simp add: split_beta)
  qed
qed

lemma poll_query_bound:
  assumes "spaced now tks"
  shows "5000 * int (payment_queries (fst (poll p start now tks))) \<le> max 0 (124999 - (now - start))"
  using assms
proof (induction tks arbitrary: now)
  case Nil
  then show ?case by simp
next
  case (Cons tk tks)
  show ?case
  proof (cases "now - start < 120000")
    case False
    then show ?thesis by simp
  next
    case True
    from Cons.prems have sp: "spaced (at tk) tks" and le: "now + 5000 \<le> at tk" by simp_all
    from sp have ih: "5000 * int (payment_queries (fst (poll p start (at tk) tks)))
        \<le> max 0 (124999 - (at tk - start))" by (rule Cons.IH)
    show ?thesis
    proof (cases "reply tk")
      case (QueryThrew e)
      with True show ?thesis by simp
    next
      case (QueryReturned d)
      from True ih le have "5000 * int (payment_queries (fst (poll p start (at tk) tks)))
          \<le> 119999 - (now - start)" by (simp add: max_def split: if_splits)
      with True QueryReturned show ?thesis by (simp add: split_beta)
    qed
  qed
qed

lemma lifecycle_timed_out:
  assumes "snd (poll p (pollStart env) (firstTest env) (ticks env)) = TimedOut"
  shows "lifecycle j p env =
           fst (poll p (pollStart env) (firstTest env) (ticks env))
           @ [JobsSet j \<lparr>status = ''failed'', result = Val (JStr ''Payment timeout'')\<rparr>]"
  using assms
  by (cases "poll p (pollStart env) (firstTest env) (ticks env)") (simp add: lifecycle_def)

text \<open>
  C3, as the code has it. If every query answers and none answers \<^verbatim>\<open>Success\<close>, with
  rounds of at least the 5000 ms of the wait and the service answering as often as it is
  asked (24 answers are enough), the loop ends after at most 24 queries, the job ends as
  \<^verbatim>\<open>failed\<close> with result \<^verbatim>\<open>Payment timeout\<close>, and the increment is never called.
\<close>

theorem payment_timeout_fails_job:
  assumes "accepted b"
    and "list_all answers_unconfirmed (ticks env)"
    and "spaced (firstTest env) (ticks env)"
    and "pollStart env \<le> firstTest env"
    and "24 \<le> length (ticks env)"
  shows "run_effects js (start_job h b rq env) (jobId rq) =
           Some \<lparr>status = ''failed'', result = Val (JStr ''Payment timeout'')\<rparr>
       \<and> payment_queries (start_job h b rq env) \<le> 24
       \<and> Increment \<notin> set (start_job h b rq env)"
proof -
  let ?po = "poll (paymentId rq) (pollStart env) (firstTest env) (ticks env)"
  let ?first = "JobsSet (jobId rq) \<lparr>status = ''awaiting_payment'', result = Val JNull\<rparr>"
  let ?last = "JobsSet (jobId rq) \<lparr>status = ''failed'', result = Val (JStr ''Payment timeout'')\<rparr>"
  from assms(4,5) have "120000 - (firstTest env - pollStart env) \<le> 5000 * int (length (ticks env))"
    by simp
  with assms(2,3) have out: "snd ?po = TimedOut" by (rule poll_times_out)
  have tr: "start_job h b rq env = ?first # Send (accepted_response h rq) # fst ?po @ [?last]"
    using start_job_accepted [OF assms(1)] lifecycle_timed_out [OF out] by simp
  have "run_effects js (start_job h b rq env) =
          run_effects (run_effects js [?first, Send (accepted_response h rq)]) (fst ?po @ [?last])"
    by (simp add: tr run_effects_def)
  also have "\<dots> = run_effects (run_effects js [?first, Send (accepted_response h rq)]) [?last]"
    by (simp add: run_effects_append run_effects_poll)
  finally have final: "run_effects js (start_job h b rq env) (jobId rq) =
           Some \<lparr>status = ''failed'', result = Val (JStr ''Payment timeout'')\<rparr>"
    by (simp add: run_effects_def)
  from poll_query_bound [OF assms(3), of "paymentId rq" "pollStart env"] assms(4)
  have "5000 * int (payment_queries (fst ?po)) \<le> 124999" by simp
  then have "payment_queries (fst ?po) \<le> 24" by simp
  then have count: "payment_queries (start_job h b rq env) \<le> 24"
    by (simp add: tr payment_queries_append)
  have "Increment \<notin> set (fst ?po)"
    using poll_effects [of "paymentId rq" "pollStart env" "firstTest env" "ticks env"] by auto
  then have "Increment \<notin> set (start_job h b rq env)" by (simp add: tr)
  with final count show ?thesis by simp
qed

lemma pending_ticks_unconfirmed: "list_all answers_unconfirmed (pending_ticks n t)"
  by (induction n t rule: pending_ticks.induct)
     (simp_all add: answers_unconfirmed_def pending_reply_def)

lemma pending_ticks_spaced: "t0 + 5000 \<le> t \<Longrightarrow> spaced t0 (pending_ticks n t)"
  by (induction n t arbitrary: t0 rule: pending_ticks.induct) simp_all

lemma length_pending_ticks: "length (pending_ticks n t) = n"
  by (induction n t rule: pending_ticks.induct) simp_all

theorem payment_timeout_fails_job_witness:
  "accepted scenario_body
   \<and> list_all answers_unconfirmed (ticks never_confirmed)
   \<and> spaced (firstTest never_confirmed) (ticks never_confirmed)
   \<and> pollStart never_confirmed \<le> firstTest never_confirmed
   \<and> 24 \<le> length (ticks never_confirmed)
   \<and> run_effects Map.empty (start_job ''hash-1'' scenario_body scenario_request never_confirmed)
        (jobId scenario_request) =
       Some \<lparr>status = ''failed'', result = Val (JStr ''Payment timeout'')\<rparr>"
proof -
  have a: "list_all answers_unconfirmed (ticks never_confirmed)"
    by (simp add: never_confirmed_def pending_ticks_unconfirmed)
  have b: "spaced (firstTest never_confirmed) (ticks never_confirmed)"
    by (simp add: never_confirmed_def pending_ticks_spaced)
  have c: "pollStart never_confirmed \<le> firstTest never_confirmed"
    by (simp add: never_confirmed_def)
  have d: "24 \<le> length (ticks never_confirmed)"
    by (simp add: never_confirmed_def length_pending_ticks)
  from payment_timeout_fails_job [OF accepted_scenario a b c d, of Map.empty "''hash-1''" scenario_request]
  show ?thesis using accepted_scenario a b c d by blast
qed

lemma poll_pending_step:
  "now - start < 120000 \<Longrightarrow>
   snd (poll p start now (\<lparr>at = t, reply = pending_reply\<rparr> # tks)) = snd (poll p start t tks)"
  by (simp add: pending_reply_def split_beta)

lemma poll_success_step:
  "now - start < 120000 \<Longrightarrow>
   snd (poll p start now (\<lparr>at = t, reply = success_reply\<rparr> # tks)) = Confirmed"
  by (simp add: success_reply_def)

lemma no_success_within_pending: "no_success_within s \<lparr>at = t, reply = pending_reply\<rparr>"
  by (simp add: no_success_within_def pending_reply_def)

lemma pending_ticks_numeral:
  "pending_ticks (numeral k) t =
     \<lparr>at = t, reply = pending_reply\<rparr> # pending_ticks (pred_numeral k) (t + 5002)"
  by (simp add: numeral_eq_Suc)

lemma poll_late_success:
  "snd (poll p 0 0 (pending_ticks 23 5002 @ [\<lparr>at = 120048, reply = success_reply\<rparr>])) = Confirmed"
  by (simp add: pending_ticks_numeral poll_pending_step poll_success_step del: poll.simps)

lemma late_success_unconfirmed:
  "list_all (no_success_within 0) (pending_ticks 23 5002 @ [\<lparr>at = 120048, reply = success_reply\<rparr>])"
  by (simp add: pending_ticks_numeral no_success_within_pending)
     (simp add: no_success_within_def success_reply_def)

lemma lifecycle_confirmed:
  assumes "snd (poll p (pollStart env) (firstTest env) (ticks env)) = Confirmed"
  shows "lifecycle j p env =
           fst (poll p (pollStart env) (firstTest env) (ticks env))
           @ [JobsSet j \<lparr>status = ''running'', result = Undefined\<rparr>, Increment]
           @ run_increment j (incremented env)"
  using assms
  by (cases "poll p (pollStart env) (firstTest env) (ticks env)") (simp add: lifecycle_def)

text \<open>
  C3 as stated fails: the deadline is tested before each round only. Here no answer
  received within 120 seconds of the start reports success, the test at 115046 ms lets a
  24th round start, its answer arrives at 120048 ms with \<^verbatim>\<open>Success\<close>, and the job runs and
  completes instead of failing with a timeout.
\<close>

theorem late_success_counterexample:
  "list_all (no_success_within (pollStart late_success)) (ticks late_success)
   \<and> run_effects Map.empty (start_job ''hash-1'' scenario_body scenario_request late_success) ''job-1'' =
       Some \<lparr>status = ''completed'', result = Val (JStr ''tx-1'')\<rparr>"
proof -
  let ?po = "poll ''pay-1'' (pollStart late_success) (firstTest late_success) (ticks late_success)"
  let ?rest = "[JobsSet ''job-1'' \<lparr>status = ''running'', result = Undefined\<rparr>, Increment,
         JobsSet ''job-1'' \<lparr>status = ''completed'', result = Val (JStr ''tx-1'')\<rparr>]"
  have quiet: "list_all (no_success_within (pollStart late_success)) (ticks late_success)"
    using late_success_unconfirmed by (simp add: late_success_def)
  have "snd ?po = Confirmed"
    using poll_late_success [of "''pay-1''"] by (simp add: late_success_def del: poll.simps)
  then have "lifecycle ''job-1'' ''pay-1'' late_success =
      fst ?po @ [JobsSet ''job-1'' \<lparr>status = ''running'', result = Undefined\<rparr>, Increment]
      @ run_increment ''job-1'' (incremented late_success)"
    by (rule lifecycle_confirmed)
  also have "run_increment ''job-1'' (incremented late_success) =
      [JobsSet ''job-1'' \<lparr>status = ''completed'', result = Val (JStr ''tx-1'')\<rparr>]"
    by (simp add: run_increment_def late_success_def)
  finally have lc: "lifecycle ''job-1'' ''pay-1'' late_success = fst ?po @ ?rest"
    by simp
  have "start_job ''hash-1'' scenario_body scenario_request late_success =
      [JobsSet ''job-1'' \<lparr>status = ''awaiting_payment'', result = Val JNull\<rparr>,
       Send (accepted_response ''hash-1'' scenario_request)] @ fst ?po @ ?rest"
    using lc by (simp add: start_job_accepted [OF accepted_scenario] scenario_request_def)
  then have "run_effects Map.empty (start_job ''hash-1'' scenario_body scenario_request late_success) ''job-1'' =
       Some \<lparr>status = ''completed'', result = Val (JStr ''tx-1'')\<rparr>"
    by (simp only: run_effects_append run_effects_poll) (simp add: run_effects_def)
  with quiet show ?thesis by simp
qed

section \<open>Shutdown on SIGINT\<close>

lemma sigints:
  "exitCode p = None \<Longrightarrow>
   run_process p (replicate n SIGINT) =
     p\<lparr>intervalActive := (if n = 0 then intervalActive p else False),
       walletCloseCalls := walletCloseCalls p + n,
       pendingCloses := pendingCloses p + n\<rparr>"
proof (induction n arbitrary: p)
  case 0
  then show ?case by (simp add: run_process_def)
next
  case (Suc n)
  let ?q = "deliver p SIGINT"
  from Suc.prems have q: "exitCode ?q = None" by simp
  have "run_process p (replicate (Suc n) SIGINT) = run_process ?q (replicate n SIGINT)"
    by (simp add: run_process_def)
  also have "\<dots> = ?q\<lparr>intervalActive := (if n = 0 then intervalActive ?q else False),
       walletCloseCalls := walletCloseCalls ?q + n,
       pendingCloses := pendingCloses ?q + n\<rparr>"
    using q by (rule Suc.IH)
  finally show ?case using Suc.prems by simp
qed

text \<open>
  C8, as the code has it. A SIGINT stops the interval timer and calls \<^verbatim>\<open>wallet.close()\<close>;
  when that call resolves the process exits with code 0. The handler has no guard: each
  further SIGINT delivered before the exit calls \<^verbatim>\<open>wallet.close()\<close> again, so \<open>n + 1\<close>
  signals make \<open>n + 1\<close> calls.
\<close>

theorem sigint_shutdown:
  "run_process serving (replicate (Suc n) SIGINT @ [WalletClosed]) =
     \<lparr>intervalActive = False, walletCloseCalls = Suc n, pendingCloses = n, exitCode = Some 0\<rparr>"
proof -
  have alive: "exitCode serving = None" by (simp add: serving_def)
  have "run_process serving (replicate (Suc n) SIGINT @ [WalletClosed]) =
      deliver (run_process serving (replicate (Suc n) SIGINT)) WalletClosed"
    by (simp add: run_process_def)
  also have "run_process serving (replicate (Suc n) SIGINT) =
      serving\<lparr>intervalActive := False, walletCloseCalls := walletCloseCalls serving + Suc n,
        pendingCloses := pendingCloses serving + Suc n\<rparr>"
    using sigints [OF alive, of "Suc n"] by simp
  finally show ?thesis by (simp add: serving_def)
qed

theorem sigint_shutdown_witness:
  "run_process serving [SIGINT, WalletClosed] =
     \<lparr>intervalActive = False, walletCloseCalls = 1, pendingCloses = 0, exitCode = Some 0\<rparr>"
  using sigint_shutdown [of 0] by simp

text \<open>
  C8 as stated fails: a second SIGINT that arrives while the first \<^verbatim>\<open>wallet.close()\<close> is
  pending calls \<^verbatim>\<open>wallet.close()\<close> a second time.
\<close>

theorem second_sigint_closes_again:
  "walletCloseCalls (run_process serving [SIGINT, SIGINT]) = 2"
  by (simp add: run_process_def serving_def)

section \<open>The picture of a number\<close>

lemma recognized_iff: "recognized c \<longleftrightarrow> is_digit c"
  by (simp add: recognized_def ASCII_NUMBERS_def is_digit_def)

lemma glyph_shape:
  assumes "ASCII_NUMBERS c = Some g"
  shows "length g = 6 \<and> (\<forall>l \<in> set g. length l = 8 \<and> 10 \<notin> set l)"
  using assms
  by (auto simp: ASCII_NUMBERS_def row_def split: if_splits)

lemma length_add_rows: "length (add_rows i g sep lines) = length lines"
  by (induction i g sep lines rule: add_rows.induct) simp_all

lemma nth_add_rows:
  "i + length g \<le> length lines \<Longrightarrow> r < length lines \<Longrightarrow>
   add_rows i g sep lines ! r =
     (if i \<le> r \<and> r < i + length g then lines ! r @ g ! (r - i) @ sep else lines ! r)"
proof (induction i g sep lines rule: add_rows.induct)
  case (1 lineIndex sep lines)
  then show ?case by auto
next
  case (2 i line rest sep lines)
  let ?lines = "lines[i := lines ! i @ line @ sep]"
  from "2.prems" have "Suc i + length rest \<le> length ?lines" and "r < length ?lines"
    by simp_all
  then have ih: "add_rows (Suc i) rest sep ?lines ! r =
     (if Suc i \<le> r \<and> r < Suc i + length rest then ?lines ! r @ rest ! (r - Suc i) @ sep
      else ?lines ! r)"
    by (rule "2.IH")
  show ?case
  proof (cases "r = i")
    case True
    with ih "2.prems" show ?thesis by simp
  next
    case False
    show ?thesis
    proof (cases "Suc i \<le> r")
      case le: True
      then have "r - i = Suc (r - Suc i)" by simp
      then have "(line # rest) ! (r - i) = rest ! (r - Suc i)" by simp
      with ih False le "2.prems" show ?thesis by simp
    next
      case gt: False
      with ih False "2.prems" show ?thesis by simp
    qed
  qed
qed

lemma add_glyph_nth:
  assumes "ASCII_NUMBERS d = Some g" and "length lines = 6" and "r < 6"
  shows "add_rows 0 g sep lines ! r = lines ! r @ glyph_row r d @ sep"
proof -
  from glyph_shape [OF assms(1)] have "length g = 6" by simp
  with assms show ?thesis
    by (simp add: nth_add_rows glyph_row_def)
qed

lemma digit_final_tail:
  assumes "digit_final (d # ds)" and "ds \<noteq> []"
  shows "digit_final ds"
  using assms by (auto simp: digit_final_def split: if_splits)

lemma digit_final_filter:
  assumes "digit_final (d # ds)" and "ds \<noteq> []" and "recognized d"
  shows "filter recognized ds \<noteq> []"
proof -
  from assms have "recognized (last ds)" by (simp add: digit_final_def)
  moreover from assms(2) have "last ds \<in> set ds" by simp
  ultimately show ?thesis by (auto simp: filter_empty_conv)
qed

lemma join_Cons: "xs \<noteq> [] \<Longrightarrow> join sep (x # xs) = x @ sep @ join sep xs"
  by (cases xs) simp_all

lemma add_digits_lines:
  assumes "digit_final ds" and "index + length ds = n" and "length lines = 6" and "r < 6"
  shows "length (add_digits n index ds lines) = 6
       \<and> add_digits n index ds lines ! r = lines ! r @ art_line r ds"
  using assms
proof (induction ds arbitrary: index lines)
  case Nil
  then show ?case by (simp add: art_line_def)
next
  case (Cons d ds)
  show ?case
  proof (cases "ASCII_NUMBERS d")
    case None
    then have nr: "\<not> recognized d" by (simp add: recognized_def)
    show ?thesis
    proof (cases "ds = []")
      case True
      with None nr Cons.prems show ?thesis by (simp add: art_line_def)
    next
      case False
      with Cons.prems have "digit_final ds" by (simp add: digit_final_tail)
      moreover from Cons.prems have "Suc index + length ds = n" by simp
      ultimately have "length (add_digits n (Suc index) ds lines) = 6
        \<and> add_digits n (Suc index) ds lines ! r = lines ! r @ art_line r ds"
        using Cons.prems(3,4) by (rule Cons.IH)
      with None nr show ?thesis by (simp add: art_line_def)
    qed
  next
    case (Some g)
    then have rec: "recognized d" by (simp add: recognized_def)
    let ?sep = "if index < n - 1 then [32, 32] else []"
    let ?lines = "add_rows 0 g ?sep lines"
    have len: "length ?lines = 6" using Cons.prems(3) by (simp add: length_add_rows)
    have nth: "?lines ! r = lines ! r @ glyph_row r d @ ?sep"
      using Some Cons.prems(3,4) by (rule add_glyph_nth)
    show ?thesis
    proof (cases "ds = []")
      case True
      with Cons.prems have "\<not> index < n - 1" by auto
      with True Some rec len nth show ?thesis by (simp add: art_line_def)
    next
      case False
      with Cons.prems have lt: "index < n - 1" by (cases ds) auto
      from False Cons.prems have "digit_final ds" by (simp add: digit_final_tail)
      moreover from Cons.prems have "Suc index + length ds = n" by simp
      ultimately have ih: "length (add_digits n (Suc index) ds ?lines) = 6
        \<and> add_digits n (Suc index) ds ?lines ! r = ?lines ! r @ art_line r ds"
        using len Cons.prems(4) by (rule Cons.IH)
      from Cons.prems(1) False rec have "filter recognized ds \<noteq> []" by (rule digit_final_filter)
      then have "art_line r (d # ds) = glyph_row r d @ [32, 32] @ art_line r ds"
        using rec by (simp add: art_line_def join_Cons)
      with ih nth lt Some show ?thesis by simp
    qed
  qed
qed

lemma list_all_last: "xs \<noteq> [] \<Longrightarrow> list_all P xs \<Longrightarrow> P (last xs)"
  by (simp add: list_all_iff)

lemma last_after_takeWhile:
  assumes "dropWhile P xs \<noteq> []"
  shows "last xs = last (dropWhile P xs)"
proof -
  from assms have "last (takeWhile P xs @ dropWhile P xs) = last (dropWhile P xs)"
    by (rule last_appendR)
  then show ?thesis by (simp only: takeWhile_dropWhile_id)
qed

lemma all_taken_last:
  assumes "takeWhile P xs \<noteq> []" and "dropWhile P xs = []"
  shows "xs \<noteq> [] \<and> P (last xs)"
proof -
  from assms(2) have all: "\<forall>x \<in> set xs. P x" by simp
  from assms(1) have "xs \<noteq> []" by auto
  with all show ?thesis by simp
qed

lemma exponent_text_last:
  assumes "exponent_text x"
  shows "x \<noteq> [] \<and> is_digit (last x)"
proof -
  from assms obtain e sg ds where x: "x = e # sg # ds" and ds: "ds \<noteq> []" "list_all is_digit ds"
    by (cases x rule: exponent_text.cases) auto
  from ds have "is_digit (last ds)" by (rule list_all_last)
  with x ds show ?thesis by simp
qed

lemma fraction_text_last:
  assumes "fraction_text x"
  shows "x \<noteq> [] \<and> is_digit (last x)"
proof -
  from assms obtain c r where x: "x = c # r" and tk: "takeWhile is_digit r \<noteq> []"
    and rest: "dropWhile is_digit r = [] \<or> exponent_text (dropWhile is_digit r)"
    by (cases x) auto
  from rest have "r \<noteq> [] \<and> is_digit (last r)"
  proof
    assume "dropWhile is_digit r = []"
    with tk show ?thesis by (rule all_taken_last)
  next
    assume ex: "exponent_text (dropWhile is_digit r)"
    then have ne: "dropWhile is_digit r \<noteq> []" and "is_digit (last (dropWhile is_digit r))"
      using exponent_text_last by blast+
    with last_after_takeWhile [OF ne] tk show ?thesis by auto
  qed
  with x show ?thesis by simp
qed

lemma unsigned_text_last:
  assumes "unsigned_text x"
  shows "x \<noteq> [] \<and> is_digit (last x)"
proof -
  from assms have tk: "takeWhile is_digit x \<noteq> []"
    and rest: "dropWhile is_digit x = [] \<or> fraction_text (dropWhile is_digit x)
                \<or> exponent_text (dropWhile is_digit x)"
    by (simp_all add: unsigned_text_def)
  from tk have ne: "x \<noteq> []" by auto
  from rest have "is_digit (last x)"
  proof (elim disjE)
    assume "dropWhile is_digit x = []"
    with tk show ?thesis using all_taken_last by blast
  next
    assume "fraction_text (dropWhile is_digit x)"
    then have d: "dropWhile is_digit x \<noteq> []" and "is_digit (last (dropWhile is_digit x))"
      using fraction_text_last by blast+
    with last_after_takeWhile [OF d] show ?thesis by simp
  next
    assume "exponent_text (dropWhile is_digit x)"
    then have d: "dropWhile is_digit x \<noteq> []" and "is_digit (last (dropWhile is_digit x))"
      using exponent_text_last by blast+
    with last_after_takeWhile [OF d] show ?thesis by simp
  qed
  with ne show ?thesis by simp
qed

lemma number_text_digit_final:
  assumes "number_text s"
  shows "digit_final s"
proof -
  from assms consider "s = ''NaN''" | "s = ''Infinity''" | "s = ''-Infinity''" | "unsigned_text s"
    | t where "s = CHR ''-'' # t" "unsigned_text t"
    by (auto simp: number_text_def split: list.splits)
  then show ?thesis
  proof cases
    case 1
    then show ?thesis by (simp add: digit_final_def recognized_iff is_digit_def)
  next
    case 2
    then show ?thesis by (simp add: digit_final_def recognized_iff is_digit_def)
  next
    case 3
    then show ?thesis by (simp add: digit_final_def recognized_iff is_digit_def)
  next
    case 4
    then show ?thesis using unsigned_text_last by (simp add: digit_final_def recognized_iff)
  next
    case 5
    from 5(2) have "t \<noteq> []" "is_digit (last t)" using unsigned_text_last by blast+
    with 5(1) show ?thesis by (simp add: digit_final_def recognized_iff)
  qed
qed

lemma split_on_nonempty: "split_on c xs \<noteq> []"
  by (induction xs) (simp_all split: list.splits)

lemma split_on_plain: "c \<notin> set l \<Longrightarrow> split_on c l = [l]"
  by (induction l) simp_all

lemma split_on_append: "c \<notin> set l \<Longrightarrow> split_on c (l @ c # rest) = l # split_on c rest"
  by (induction l) simp_all

lemma split_on_join:
  assumes "ls \<noteq> []" and "\<forall>l \<in> set ls. c \<notin> set l"
  shows "split_on c (join [c] ls) = ls"
  using assms
proof (induction ls)
  case Nil
  then show ?case by simp
next
  case (Cons x ls)
  show ?case
  proof (cases "ls = []")
    case True
    with Cons.prems show ?thesis by (simp add: split_on_plain)
  next
    case False
    with Cons have "split_on c (join [c] ls) = ls" by simp
    with False Cons.prems show ?thesis by (simp add: join_Cons split_on_append)
  qed
qed

lemma set_join: "set (join sep xs) \<subseteq> set sep \<union> \<Union> (set ` set xs)"
  by (induction sep xs rule: join.induct) auto

lemma glyph_row_shape:
  assumes "recognized d" and "r < 6"
  shows "length (glyph_row r d) = 8 \<and> 10 \<notin> set (glyph_row r d)"
proof -
  from assms(1) obtain g where g: "ASCII_NUMBERS d = Some g" by (auto simp: recognized_def)
  from glyph_shape [OF g] assms(2) have "g ! r \<in> set g" by simp
  with glyph_shape [OF g] g show ?thesis by (simp add: glyph_row_def)
qed

lemma art_line_no_newline:
  assumes "r < 6"
  shows "10 \<notin> set (art_line r ds)"
proof
  assume "10 \<in> set (art_line r ds)"
  with set_join [of "[32, 32]" "map (glyph_row r) (filter recognized ds)"]
  obtain d where "recognized d" "10 \<in> set (glyph_row r d)"
    by (auto simp: art_line_def)
  with glyph_row_shape [OF this(1) assms] show False by simp
qed

lemma numberToAscii_lines:
  assumes "digit_final s"
  shows "add_digits (length s) 0 s (replicate 6 []) = map (\<lambda>r. art_line r s) [0..<6]"
proof (rule nth_equalityI)
  show "length (add_digits (length s) 0 s (replicate 6 [])) = length (map (\<lambda>r. art_line r s) [0..<6])"
    using add_digits_lines [OF assms, of 0 "length s" "replicate 6 []" 0] by simp
next
  fix r assume "r < length (add_digits (length s) 0 s (replicate 6 []))"
  then have r: "r < 6"
    using add_digits_lines [OF assms, of 0 "length s" "replicate 6 []" 0] by simp
  with add_digits_lines [OF assms, of 0 "length s" "replicate 6 []" r]
  show "add_digits (length s) 0 s (replicate 6 []) ! r = map (\<lambda>r. art_line r s) [0..<6] ! r"
    by simp
qed

text \<open>The text of an integer is a number text.\<close>

lemma is_digit_digit_char: "d < 10 \<Longrightarrow> is_digit (digit_char d)"
  using digit_cases [of d] by (auto simp: digit_char_def is_digit_def)

lemma digits10_digits: "list_all is_digit (digits10 n)"
proof (induction n rule: digits10.induct)
  case (1 n)
  show ?case
  proof (cases "n < 10")
    case True
    then show ?thesis by (subst digits10.simps) (simp add: is_digit_digit_char)
  next
    case False
    with 1 have "list_all is_digit (digits10 (n div 10))" by simp
    with False show ?thesis by (subst digits10.simps) (simp add: is_digit_digit_char)
  qed
qed

lemma unsigned_text_digits10: "unsigned_text (digits10 n)"
proof -
  have all: "\<forall>c \<in> set (digits10 n). is_digit c"
    using digits10_digits [of n] by (simp add: list_all_iff)
  have tw: "takeWhile is_digit (digits10 n) = digits10 n" using all by simp
  have dw: "dropWhile is_digit (digits10 n) = []" using all by simp
  show ?thesis
    unfolding unsigned_text_def tw dw using digits10_nonempty [of n] by simp
qed

lemma number_text_number_toString: "number_text (number_toString i)"
  by (simp add: number_text_def number_toString_def unsigned_text_digits10)

text \<open>
  C10. For the text of any number (every form \<^verbatim>\<open>Number.prototype.toString\<close> returns),
  \<^verbatim>\<open>numberToAscii\<close> returns six lines joined by newlines: splitting the result at the
  newlines gives exactly six lines, line \<open>r\<close> being the rows \<open>r\<close> of the glyphs of the
  characters that have an entry in \<^verbatim>\<open>ASCII_NUMBERS\<close>, in order, with two spaces after each
  of them but the last; characters without an entry add nothing; every such row has 8
  characters.
\<close>

theorem numberToAscii_six_lines:
  assumes "number_text s"
  shows "numberToAscii s = join [10] (map (\<lambda>r. art_line r s) [0..<6])
       \<and> split_on 10 (numberToAscii s) = map (\<lambda>r. art_line r s) [0..<6]
       \<and> length (split_on 10 (numberToAscii s)) = 6
       \<and> (\<forall>d \<in> set s. \<forall>r < 6. recognized d \<longrightarrow> length (glyph_row r d) = 8)"
proof -
  from assms have df: "digit_final s" by (rule number_text_digit_final)
  then have eq: "numberToAscii s = join [10] (map (\<lambda>r. art_line r s) [0..<6])"
    by (simp add: numberToAscii_def numberToAscii_lines)
  have "\<forall>l \<in> set (map (\<lambda>r. art_line r s) [0..<6]). 10 \<notin> set l"
    using art_line_no_newline by auto
  moreover have "map (\<lambda>r. art_line r s) [0..<6] \<noteq> []" by simp
  ultimately have sp: "split_on 10 (join [10] (map (\<lambda>r. art_line r s) [0..<6]))
      = map (\<lambda>r. art_line r s) [0..<6]"
    by (rule split_on_join [rotated])
  from eq sp glyph_row_shape show ?thesis by simp
qed

theorem numberToAscii_six_lines_witness:
  "number_text ''42''
   \<and> split_on 10 (numberToAscii ''42'') = map (\<lambda>r. art_line r ''42'') [0..<6]
   \<and> length (split_on 10 (numberToAscii ''42'')) = 6"
proof -
  have n: "number_text ''42''"
    by (simp add: number_text_def unsigned_text_def is_digit_def)
  from numberToAscii_six_lines [OF n] show ?thesis using n by blast
qed

end
